theory Spec2Isabelle
  imports Main "HOL-Library.Word" "HOL-Library.Multiset"
begin

section \<open>Read planning of the Hive connector (StorageCnchHive.cpp)\<close>

text \<open>
  A shallow embedding of the read-planning functions of
  \<^verbatim>\<open>src/Storages/Hive/StorageCnchHive.cpp\<close>: the extraction of a hash index from a file
  path, the selection of partitions, the resolution of the required bucket, the selection of
  the directory lister and \<^verbatim>\<open>prepareReadContext\<close>, which runs them in order.
\<close>

subsection \<open>Machine integers and errors\<close>

type_synonym size_t = "64 word"
type_synonym UInt64 = "64 word"

text \<open>\<^verbatim>\<open>std::string::npos\<close> is the largest \<^verbatim>\<open>size_t\<close>; adding one to it wraps to 0.\<close>

definition npos :: size_t where
  "npos = - 1"

definition INT_MAX :: int where
  "INT_MAX = 2147483647"

text \<open>
  An exception thrown by a collaborator whose code is outside the file (metastore client,
  directory lister, disk resolution, expression evaluation).
\<close>

datatype ext_error = ExtError string

text \<open>
  The exceptions the file itself can raise: the two \<^verbatim>\<open>ErrorCodes\<close> it throws, the
  \<^verbatim>\<open>std::out_of_range\<close> and \<^verbatim>\<open>std::invalid_argument\<close> of \<^verbatim>\<open>std::stoi\<close>, the type
  mismatch of \<^verbatim>\<open>Field::safeGet\<close>, and whatever a collaborator throws.
\<close>

datatype error =
    TOO_MANY_PARTITIONS nat int
  | UNKNOWN_FORMAT string
  | STD_OUT_OF_RANGE
  | STD_INVALID_ARGUMENT
  | BAD_GET
  | COLLABORATOR ext_error

subsection \<open>\<^verbatim>\<open>get_file_hash_index\<close> (lines 59 to 86)\<close>

text \<open>\<^verbatim>\<open>std::isdigit\<close> in the C locale: the ten characters from 0 to 9.\<close>

definition isdigit :: "char \<Rightarrow> bool" where
  "isdigit c = (48 \<le> (of_char c :: nat) \<and> (of_char c :: nat) \<le> 57)"

definition digit_value :: "char \<Rightarrow> int" where
  "digit_value c = int (of_char c) - 48"

text \<open>The value of a string of decimal digits, most significant digit first.\<close>

definition decimal :: "string \<Rightarrow> int" where
  "decimal ds = foldl (\<lambda>acc c. 10 * acc + digit_value c) 0 ds"

text \<open>
  \<^verbatim>\<open>std::stoi\<close> on a string that starts with a digit (the only strings the file passes to it):
  it reads the leading digits, raises \<^verbatim>\<open>std::invalid_argument\<close> when there are none and
  \<^verbatim>\<open>std::out_of_range\<close> when the value does not fit an \<^verbatim>\<open>int\<close>.
\<close>

definition stoi :: "string \<Rightarrow> error + int" where
  "stoi s =
     (let ds = takeWhile isdigit s in
      if ds = [] then Inl STD_INVALID_ARGUMENT
      else if INT_MAX < decimal ds then Inl STD_OUT_OF_RANGE
      else Inr (decimal ds))"

text \<open>\<^verbatim>\<open>s.substr(pos, n)\<close> for \<^verbatim>\<open>pos \<le> s.size()\<close>.\<close>

definition substr :: "string \<Rightarrow> nat \<Rightarrow> nat \<Rightarrow> string" where
  "substr s pos n = take n (drop pos s)"

text \<open>
  \<^verbatim>\<open>s.find_last_of(c)\<close>: the largest index holding \<^verbatim>\<open>c\<close>, searching from the end,
  or \<^verbatim>\<open>npos\<close>.
\<close>

fun find_last_of_from :: "string \<Rightarrow> char \<Rightarrow> nat \<Rightarrow> size_t" where
  "find_last_of_from s c 0 = npos"
| "find_last_of_from s c (Suc i) =
     (if s ! i = c then of_nat i else find_last_of_from s c i)"

definition find_last_of :: "string \<Rightarrow> char \<Rightarrow> size_t" where
  "find_last_of s c = find_last_of_from s c (length s)"

text \<open>
  The loop of the lambda \<^verbatim>\<open>get_hash_index_from_position\<close>:
  \<^verbatim>\<open>for (; r < size; ++r) if (!isdigit(path[r])) break;\<close> It returns the final \<^verbatim>\<open>r\<close>.
\<close>

function scan_digits :: "string \<Rightarrow> nat \<Rightarrow> nat" where
  "scan_digits hive_file_path r =
     (if r < length hive_file_path
      then (if \<not> isdigit (hive_file_path ! r) then r
            else scan_digits hive_file_path (Suc r))
      else r)"
  by pat_completeness auto
termination
  by (relation "measure (\<lambda>(p, r). length p - r)") auto

declare scan_digits.simps [simp del]

text \<open>
  The lambda: \<^verbatim>\<open>l = r = pos\<close>, the loop, then \<^verbatim>\<open>std::stoi\<close> of the run when it is not
  empty. Its result is a \<^verbatim>\<open>std::optional<Int64>\<close>.
\<close>

definition get_hash_index_from_position :: "string \<Rightarrow> size_t \<Rightarrow> error + int option" where
  "get_hash_index_from_position hive_file_path pos =
     (let l = unat pos; r = scan_digits hive_file_path l in
      if l < r then
        (case stoi (substr hive_file_path l (r - l)) of
           Inl e \<Rightarrow> Inl e
         | Inr v \<Rightarrow> Inr (Some v))
      else Inr None)"

text \<open>The conversion of \<^verbatim>\<open>std::optional<Int64>\<close> to \<^verbatim>\<open>std::optional<UInt64>\<close>.\<close>

definition to_optional_UInt64 :: "int option \<Rightarrow> UInt64 option" where
  "to_optional_UInt64 res = map_option word_of_int res"

definition get_file_hash_index :: "string \<Rightarrow> error + UInt64 option" where
  "get_file_hash_index hive_file_path =
     (case get_hash_index_from_position hive_file_path
             (find_last_of hive_file_path (CHR ''_'') + 1) of
        Inl e \<Rightarrow> Inl e
      | Inr (Some v) \<Rightarrow> Inr (to_optional_UInt64 (Some v))
      | Inr None \<Rightarrow>
          (case get_hash_index_from_position hive_file_path
                  (find_last_of hive_file_path (CHR ''/'') + 1) of
             Inl e \<Rightarrow> Inl e
           | Inr (Some v) \<Rightarrow> Inr (to_optional_UInt64 (Some v))
           | Inr None \<Rightarrow> Inr None))"

subsection \<open>Partitions and files\<close>

text \<open>
  The fields of \<^verbatim>\<open>HivePartition\<close> and \<^verbatim>\<open>IHiveFile\<close> that the file reads. The field
  \<^verbatim>\<open>value\<close> of a partition is named \<open>partition_value\<close> and the field \<^verbatim>\<open>partition\<close> of a
  file \<open>file_partition\<close>.
\<close>

record HivePartition =
  partition_id :: string
  partition_value :: "string list"
  location :: string

record HiveFile =
  file_path :: string
  file_partition :: "HivePartition option"

subsection \<open>Bucket pruning (lines 275 to 286)\<close>

text \<open>
  The predicate given to \<^verbatim>\<open>std::remove_if\<close>: false when no bucket is required; otherwise
  the hash index of the path is taken, and the file goes when the index is known and
  \<^verbatim>\<open>hash_index != *required_bucket\<close>, a comparison of an optional with a value.
\<close>

definition bucket_mismatch :: "UInt64 option \<Rightarrow> HiveFile \<Rightarrow> error + bool" where
  "bucket_mismatch required_bucket file =
     (case required_bucket of
        None \<Rightarrow> Inr False
      | Some b \<Rightarrow>
          (case get_file_hash_index (file_path file) of
             Inl e \<Rightarrow> Inl e
           | Inr hash_index \<Rightarrow> Inr (hash_index \<noteq> None \<and> hash_index \<noteq> Some b)))"

text \<open>
  \<^verbatim>\<open>std::remove_if\<close> followed by \<^verbatim>\<open>erase\<close>: the elements for which the predicate is false
  stay, in their order. The predicate runs on the elements from first to last, and an
  exception it throws leaves the function.
\<close>

fun remove_if :: "('a \<Rightarrow> error + bool) \<Rightarrow> 'a list \<Rightarrow> error + 'a list" where
  "remove_if pred [] = Inr []"
| "remove_if pred (x # xs) =
     (case pred x of
        Inl e \<Rightarrow> Inl e
      | Inr b \<Rightarrow>
          (case remove_if pred xs of
             Inl e \<Rightarrow> Inl e
           | Inr ys \<Rightarrow> Inr (if b then ys else x # ys)))"

definition prune_files :: "UInt64 option \<Rightarrow> HiveFile list \<Rightarrow> error + HiveFile list" where
  "prune_files required_bucket hive_files = remove_if (bucket_mismatch required_bucket) hive_files"

subsection \<open>Expressions, settings and collaborators\<close>

text \<open>
  A \<^verbatim>\<open>Field\<close> is the value of a literal. An expression is a function call with a name and
  its arguments (the pointer \<^verbatim>\<open>arguments\<close> may be null), a literal, an identifier or any
  other node.
\<close>

datatype Field = Null | UInt64Field UInt64 | Int64Field int | StringField string

datatype AST =
    ASTFunction string "AST list option"
  | ASTLiteral Field
  | ASTIdentifier string
  | ASTOther string

datatype Disk = Disk string

datatype FileFormat = PARQUET | ORC

datatype DirectoryLister =
    HudiCowDirectoryLister Disk
  | DiskDirectoryLister Disk FileFormat

record Settings =
  max_partitions_to_read :: int
  use_hive_metastore_filter :: bool
  use_hive_partition_filter :: bool
  use_hive_cluster_key_filter :: bool

record HiveWhereOptimizer =
  partition_key_conds :: "AST option"
  cluster_key_conds :: "AST option"

text \<open>The storage descriptor \<^verbatim>\<open>sd\<close> of a table or of a partition of the metastore.\<close>

record StorageDescriptor =
  sd_location :: string
  inputFormat :: string

record ApachePartition =
  ap_values :: "string list"
  ap_sd :: StorageDescriptor

text \<open>
  What the object and its metadata snapshot hold: the table name and UUID of the storage
  identifier, the table of the metastore, whether a partition key and a cluster-by key are
  declared, and the names of the columns the cluster-by expression requires.
\<close>

record StorageCnchHive =
  table_name :: string
  storage_uuid :: string
  hive_table_sd :: StorageDescriptor
  hasPartitionKey :: bool
  hasClusterByKey :: bool
  cluster_by_required_columns :: "string list"

text \<open>
  The functions and objects the file calls and does not define, taken as parameters: each
  one that does input or output, or evaluates an expression, may throw. The last field is
  the order in which the jobs of the thread pool reach the shared file list.
\<close>

record Collaborators =
  check_columns :: "string list \<Rightarrow> ext_error option"
  getPartitionsByFilter :: "string \<Rightarrow> ext_error + ApachePartition list"
  load_partition :: "ApachePartition \<Rightarrow> HivePartition"
  load_table :: "StorageDescriptor \<Rightarrow> HivePartition"
  canBePruned :: "string \<Rightarrow> string list \<Rightarrow> bool"
  queryToString :: "AST \<Rightarrow> string"
  getDiskFromURI :: "string \<Rightarrow> ext_error + Disk"
  list_files :: "DirectoryLister \<Rightarrow> HivePartition \<Rightarrow> ext_error + HiveFile list"
  evaluateConstantExpressionOrIdentifierAsLiteral :: "AST \<Rightarrow> ext_error + Field"
  cluster_by_execute :: "(string \<times> Field list) list \<Rightarrow> ext_error + UInt64"
  getWorkerGroupForTable :: "ext_error option"
  build_cloud_table_sql :: "string \<Rightarrow> string"
  txn_id :: string
  pool_schedule :: "nat list"

text \<open>
  What read planning does to the world: the directory listers and thread pools it
  constructs (a pool by its number of threads), the partitions it asks a lister to list,
  and the create queries and data parts it adds to the server resource.
\<close>

record PlanningState =
  directory_listers :: "DirectoryLister list"
  thread_pools :: "nat list"
  listing_calls :: "HivePartition list"
  create_queries :: "(string \<times> string) list"
  data_parts :: "(string \<times> HiveFile list) list"

record PrepareContextResult =
  hive_files :: "HiveFile list"
  local_table_name :: string

subsection \<open>\<^verbatim>\<open>selectPartitions\<close> (lines 424 to 465)\<close>

text \<open>The loop over the partitions of the metastore; \<open>pruner\<close> says whether a pruner was built.\<close>

fun select_loop ::
  "Collaborators \<Rightarrow> bool \<Rightarrow> ApachePartition list \<Rightarrow> HivePartition list \<Rightarrow> HivePartition list"
where
  "select_loop collab pruner [] partitions = partitions"
| "select_loop collab pruner (apache_partition # rest) partitions =
     (let part = load_partition collab apache_partition;
          can_be_pruned =
            (pruner \<and> canBePruned collab (partition_id part) (partition_value part))
      in select_loop collab pruner rest
           (if \<not> can_be_pruned then partitions @ [part] else partitions))"

definition metastore_filter :: "Collaborators \<Rightarrow> Settings \<Rightarrow> HiveWhereOptimizer \<Rightarrow> string" where
  "metastore_filter collab settings optimizer =
     (case partition_key_conds optimizer of
        Some conds \<Rightarrow>
          if use_hive_metastore_filter settings then queryToString collab conds else []
      | None \<Rightarrow> [])"

definition selectPartitions ::
  "StorageCnchHive \<Rightarrow> Collaborators \<Rightarrow> Settings \<Rightarrow> HiveWhereOptimizer
     \<Rightarrow> error + HivePartition list"
where
  "selectPartitions storage collab settings optimizer =
     (if \<not> hasPartitionKey storage
      then Inr [load_table collab (hive_table_sd storage)]
      else
        (case getPartitionsByFilter collab (metastore_filter collab settings optimizer) of
           Inl e \<Rightarrow> Inl (COLLABORATOR e)
         | Inr apache_hive_partitions \<Rightarrow>
             (let pruner = (hasPartitionKey storage \<and> use_hive_partition_filter settings)
              in Inr (select_loop collab pruner apache_hive_partitions []))))"

subsection \<open>\<^verbatim>\<open>getSelectedBucketNumber\<close> (lines 467 to 524)\<close>

text \<open>\<^verbatim>\<open>Block::getPositionByName\<close> on the block of the required columns.\<close>

fun getPositionByName :: "string list \<Rightarrow> string \<Rightarrow> nat" where
  "getPositionByName [] column_name = 0"
| "getPositionByName (name # names) column_name =
     (if name = column_name then 0 else Suc (getPositionByName names column_name))"

text \<open>\<^verbatim>\<open>value.safeGet<String>()\<close>: the string of a string field, an exception otherwise.\<close>

definition safeGet_String :: "Field \<Rightarrow> error + string" where
  "safeGet_String field = (case field of StringField str \<Rightarrow> Inr str | _ \<Rightarrow> Inl BAD_GET)"

text \<open>
  The body of the branch for \<^verbatim>\<open>equals\<close> once both arguments are evaluated: a column of the
  block that is still empty receives the value.
\<close>

definition bind_column ::
  "string list \<Rightarrow> string \<Rightarrow> Field \<Rightarrow> Field list list \<Rightarrow> Field list list"
where
  "bind_column names column_name fld columns =
     (if column_name \<in> set names then
        (let pos = getPositionByName names column_name in
         if columns ! pos = [] then columns[pos := columns ! pos @ [fld]] else columns)
      else columns)"

text \<open>
  The recursive lambda \<^verbatim>\<open>parse_cluster_by_cond\<close>, with the mutable columns passed along.
  The second function is its loop over the children of an \<^verbatim>\<open>and\<close>.
\<close>

fun parse_cluster_by_cond ::
  "(AST \<Rightarrow> ext_error + Field) \<Rightarrow> string list \<Rightarrow> AST \<Rightarrow> Field list list
     \<Rightarrow> error + Field list list"
and parse_cluster_by_conds ::
  "(AST \<Rightarrow> ext_error + Field) \<Rightarrow> string list \<Rightarrow> AST list \<Rightarrow> Field list list
     \<Rightarrow> error + Field list list"
where
  "parse_cluster_by_cond ev names (ASTFunction name None) columns = Inr columns"
| "parse_cluster_by_cond ev names (ASTFunction name (Some children)) columns =
     (if name = ''equals'' \<and> length children = 2 then
        (case ev (children ! 0) of
           Inl e \<Rightarrow> Inl (COLLABORATOR e)
         | Inr column \<Rightarrow>
             (case ev (children ! 1) of
                Inl e \<Rightarrow> Inl (COLLABORATOR e)
              | Inr fld \<Rightarrow>
                  (case safeGet_String column of
                     Inl e \<Rightarrow> Inl e
                   | Inr column_name \<Rightarrow> Inr (bind_column names column_name fld columns))))
      else if name = ''and'' then parse_cluster_by_conds ev names children columns
      else Inr columns)"
| "parse_cluster_by_cond ev names (ASTLiteral v) columns = Inr columns"
| "parse_cluster_by_cond ev names (ASTIdentifier v) columns = Inr columns"
| "parse_cluster_by_cond ev names (ASTOther v) columns = Inr columns"
| "parse_cluster_by_conds ev names [] columns = Inr columns"
| "parse_cluster_by_conds ev names (child # children) columns =
     (case parse_cluster_by_cond ev names child columns of
        Inl e \<Rightarrow> Inl e
      | Inr columns' \<Rightarrow> parse_cluster_by_conds ev names children columns')"

definition getSelectedBucketNumber ::
  "StorageCnchHive \<Rightarrow> Collaborators \<Rightarrow> HiveWhereOptimizer \<Rightarrow> error + UInt64 option"
where
  "getSelectedBucketNumber storage collab optimizer =
     (case cluster_key_conds optimizer of
        None \<Rightarrow> Inr None
      | Some cluster_by_conds \<Rightarrow>
          if \<not> hasClusterByKey storage then Inr None
          else
            (let names = cluster_by_required_columns storage;
                 columns = map (\<lambda>_. []) names
             in case parse_cluster_by_cond
                       (evaluateConstantExpressionOrIdentifierAsLiteral collab)
                       names cluster_by_conds columns of
                  Inl e \<Rightarrow> Inl e
                | Inr columns' \<Rightarrow>
                    if list_ex (\<lambda>column. column = []) columns' then Inr None
                    else
                      (case cluster_by_execute collab (zip names columns') of
                         Inl e \<Rightarrow> Inl (COLLABORATOR e)
                       | Inr required_bucket \<Rightarrow> Inr (Some required_bucket))))"

subsection \<open>\<^verbatim>\<open>getDirectoryLister\<close> (lines 663 to 681)\<close>

definition getDirectoryLister :: "StorageCnchHive \<Rightarrow> Collaborators \<Rightarrow> error + DirectoryLister" where
  "getDirectoryLister storage collab =
     (case getDiskFromURI collab (sd_location (hive_table_sd storage)) of
        Inl e \<Rightarrow> Inl (COLLABORATOR e)
      | Inr disk \<Rightarrow>
          (let input_format = inputFormat (hive_table_sd storage) in
           if input_format = ''org.apache.hudi.hadoop.HoodieParquetInputFormat''
           then Inr (HudiCowDirectoryLister disk)
           else if input_format = ''org.apache.hadoop.hive.ql.io.parquet.MapredParquetInputFormat''
           then Inr (DiskDirectoryLister disk PARQUET)
           else if input_format = ''org.apache.hadoop.hive.ql.io.orc.OrcInputFormat''
           then Inr (DiskDirectoryLister disk ORC)
           else Inl (UNKNOWN_FORMAT input_format)))"

subsection \<open>Listing the partitions (lines 238 to 272)\<close>

text \<open>
  The lambda \<^verbatim>\<open>list_partition\<close>: the lister lists the partition and the files are appended
  to \<^verbatim>\<open>hive_files\<close> under the mutex.
\<close>

definition list_partition ::
  "(HivePartition \<Rightarrow> ext_error + HiveFile list) \<Rightarrow> HivePartition
     \<Rightarrow> HiveFile list \<Rightarrow> PlanningState \<Rightarrow> (error + HiveFile list) \<times> PlanningState"
where
  "list_partition lister part files st =
     (let st' = st\<lparr>listing_calls := listing_calls st @ [part]\<rparr> in
      case lister part of
        Inl e \<Rightarrow> (Inl (COLLABORATOR e), st')
      | Inr listed \<Rightarrow> (Inr (files @ listed), st'))"

text \<open>The loop of the sequential branch.\<close>

fun list_sequentially ::
  "(HivePartition \<Rightarrow> ext_error + HiveFile list) \<Rightarrow> HivePartition list
     \<Rightarrow> HiveFile list \<Rightarrow> PlanningState \<Rightarrow> (error + HiveFile list) \<times> PlanningState"
where
  "list_sequentially lister [] files st = (Inr files, st)"
| "list_sequentially lister (part # partitions) files st =
     (case list_partition lister part files st of
        (Inl e, st') \<Rightarrow> (Inl e, st')
      | (Inr files', st') \<Rightarrow> list_sequentially lister partitions files' st')"

text \<open>
  Modelled from the spec: \<^verbatim>\<open>ThreadPool\<close> (its \<^verbatim>\<open>scheduleOrThrowOnError\<close> and \<^verbatim>\<open>wait\<close>) is
  not in the file. By sections 4.5 and 5 of the specification every scheduled job lists
  one partition and appends its files to the shared collection under mutual exclusion; the
  orchestrator waits for all scheduled work to finish, successful or not, and then
  surfaces the first error. The jobs still to finish are \<open>pending\<close>; the head of the
  schedule picks the one that finishes next, so each schedule is one interleaving of the
  jobs and every interleaving is the run of some schedule. A job that fails leaves the
  shared collection as it was and is remembered as the first exception if there is none
  yet; the other jobs still run.
\<close>

function pool_jobs ::
  "(HivePartition \<Rightarrow> ext_error + HiveFile list) \<Rightarrow> nat list \<Rightarrow> HivePartition list
     \<Rightarrow> error option \<Rightarrow> HiveFile list \<Rightarrow> PlanningState
     \<Rightarrow> (error + HiveFile list) \<times> PlanningState"
where
  "pool_jobs lister schedule pending first_exception files st =
     (if pending = [] then
        (case first_exception of
           Some e \<Rightarrow> (Inl e, st)
         | None \<Rightarrow> (Inr files, st))
      else
        (let i = (case schedule of [] \<Rightarrow> 0 | c # _ \<Rightarrow> c mod length pending) in
         case list_partition lister (pending ! i) files st of
           (Inl e, st') \<Rightarrow>
             pool_jobs lister (tl schedule) (take i pending @ drop (Suc i) pending)
               (case first_exception of None \<Rightarrow> Some e | Some e0 \<Rightarrow> Some e0) files st'
         | (Inr files', st') \<Rightarrow>
             pool_jobs lister (tl schedule) (take i pending @ drop (Suc i) pending)
               first_exception files' st'))"
  by pat_completeness auto
termination
proof (relation "measure (\<lambda>(lister, schedule, pending, first_exception, files, st).
    length pending)", goal_cases)
  case 1
  show ?case by simp
next
  case (2 lister schedule pending first_exception files st i)
  then have "i < length pending" by (cases schedule) simp_all
  then show ?case by simp
next
  case (3 lister schedule pending first_exception files st i)
  then have "i < length pending" by (cases schedule) simp_all
  then show ?case by simp
qed

declare pool_jobs.simps [simp del]

text \<open>
  The concurrent branch from the scheduling of the jobs to the return of
  \<^verbatim>\<open>pool.wait()\<close>: all jobs are pending and there is no exception yet.
\<close>

definition list_in_pool ::
  "(HivePartition \<Rightarrow> ext_error + HiveFile list) \<Rightarrow> nat list \<Rightarrow> HivePartition list
     \<Rightarrow> HiveFile list \<Rightarrow> PlanningState \<Rightarrow> (error + HiveFile list) \<times> PlanningState"
where
  "list_in_pool lister schedule pending files st =
     pool_jobs lister schedule pending None files st"

text \<open>
  The number of threads of the pool and the choice between the two branches. A pool is
  constructed in the concurrent branch only.
\<close>

definition num_threads :: "nat \<Rightarrow> HivePartition list \<Rightarrow> nat" where
  "num_threads num_streams partitions = min num_streams (length partitions)"

definition list_partitions ::
  "(HivePartition \<Rightarrow> ext_error + HiveFile list) \<Rightarrow> nat list \<Rightarrow> nat \<Rightarrow> HivePartition list
     \<Rightarrow> PlanningState \<Rightarrow> (error + HiveFile list) \<times> PlanningState"
where
  "list_partitions lister schedule num_streams partitions st =
     (if num_streams \<le> 1 \<or> length partitions = 1
      then list_sequentially lister partitions [] st
      else
        list_in_pool lister schedule partitions []
          (st\<lparr>thread_pools := thread_pools st @ [num_threads num_streams partitions]\<rparr>))"

subsection \<open>\<^verbatim>\<open>collectResource\<close> and \<^verbatim>\<open>prepareReadContext\<close> (lines 197 to 293)\<close>

text \<open>
  The cloud table is named after the table and the transaction; the builder (outside the
  file) writes the create query for that name, which is also the name it reports.
\<close>

definition collectResource ::
  "StorageCnchHive \<Rightarrow> Collaborators \<Rightarrow> PrepareContextResult \<Rightarrow> PlanningState
     \<Rightarrow> (error + PrepareContextResult) \<times> PlanningState"
where
  "collectResource storage collab result st =
     (case getWorkerGroupForTable collab of
        Some e \<Rightarrow> (Inl (COLLABORATOR e), st)
      | None \<Rightarrow>
          (let cloud_table_name = table_name storage @ ''_'' @ txn_id collab;
               cloud_table_sql = build_cloud_table_sql collab cloud_table_name;
               st' = st\<lparr>create_queries := create_queries st @ [(cloud_table_sql, cloud_table_name)],
                        data_parts := data_parts st @ [(storage_uuid storage, hive_files result)]\<rparr>
           in (Inr (result\<lparr>local_table_name := cloud_table_name\<rparr>), st')))"

text \<open>The check of \<^verbatim>\<open>max_partitions_to_read\<close> (lines 226 to 237).\<close>

definition check_max_partitions :: "Settings \<Rightarrow> HivePartition list \<Rightarrow> error option" where
  "check_max_partitions settings partitions =
     (if 0 < max_partitions_to_read settings
         \<and> nat (max_partitions_to_read settings) < length partitions
      then Some (TOO_MANY_PARTITIONS (length partitions) (max_partitions_to_read settings))
      else None)"

text \<open>The pruning block, entered for a bucket table when the setting allows it.\<close>

definition prune_by_bucket ::
  "StorageCnchHive \<Rightarrow> Collaborators \<Rightarrow> Settings \<Rightarrow> HiveWhereOptimizer \<Rightarrow> HiveFile list
     \<Rightarrow> error + HiveFile list"
where
  "prune_by_bucket storage collab settings optimizer files =
     (if hasClusterByKey storage \<and> use_hive_cluster_key_filter settings then
        (case getSelectedBucketNumber storage collab optimizer of
           Inl e \<Rightarrow> Inl e
         | Inr required_bucket \<Rightarrow> prune_files required_bucket files)
      else Inr files)"

definition prepareReadContext ::
  "StorageCnchHive \<Rightarrow> Collaborators \<Rightarrow> Settings \<Rightarrow> HiveWhereOptimizer \<Rightarrow> string list \<Rightarrow> nat
     \<Rightarrow> PlanningState \<Rightarrow> (error + PrepareContextResult) \<times> PlanningState"
where
  "prepareReadContext storage collab settings optimizer column_names num_streams st =
     (case check_columns collab column_names of
        Some e \<Rightarrow> (Inl (COLLABORATOR e), st)
      | None \<Rightarrow>
     (case selectPartitions storage collab settings optimizer of
        Inl e \<Rightarrow> (Inl e, st)
      | Inr partitions \<Rightarrow>
     (case check_max_partitions settings partitions of
        Some e \<Rightarrow> (Inl e, st)
      | None \<Rightarrow>
     (case getDirectoryLister storage collab of
        Inl e \<Rightarrow> (Inl e, st)
      | Inr lister \<Rightarrow>
     (case list_partitions (list_files collab lister) (pool_schedule collab) num_streams
             partitions (st\<lparr>directory_listers := directory_listers st @ [lister]\<rparr>) of
        (Inl e, st') \<Rightarrow> (Inl e, st')
      | (Inr files, st') \<Rightarrow>
     (case prune_by_bucket storage collab settings optimizer files of
        Inl e \<Rightarrow> (Inl e, st')
      | Inr pruned \<Rightarrow>
          collectResource storage collab
            \<lparr>hive_files = pruned, local_table_name = []\<rparr> st'))))))"

subsection \<open>Digit runs, as lists\<close>

text \<open>
  The part of a path after the last occurrence of a character; the whole path when the
  character does not occur.
\<close>

definition after_last :: "char \<Rightarrow> string \<Rightarrow> string" where
  "after_last c s = rev (takeWhile (\<lambda>x. x \<noteq> c) (rev s))"

text \<open>The maximal run of decimal digits at the start of that part.\<close>

definition run_after :: "char \<Rightarrow> string \<Rightarrow> string" where
  "run_after c s = takeWhile isdigit (after_last c s)"


text \<open>
  The two-tier rule in the words of the specification: the run of digits right after the
  last occurrence of the character, which is empty when the character does not occur, and
  the parse of the run as an unsigned integer.
\<close>

definition spec_digit_run_after :: "char \<Rightarrow> string \<Rightarrow> string" where
  "spec_digit_run_after c s = (if c \<in> set s then takeWhile isdigit (after_last c s) else [])"

definition spec_file_hash_index :: "string \<Rightarrow> int option" where
  "spec_file_hash_index s =
     (if spec_digit_run_after (CHR ''_'') s \<noteq> []
      then Some (decimal (spec_digit_run_after (CHR ''_'') s))
      else if spec_digit_run_after (CHR ''/'') s \<noteq> []
      then Some (decimal (spec_digit_run_after (CHR ''/'') s))
      else None)"


subsection \<open>Notions used to state the properties\<close>

text \<open>The files a lister returns for a partition, none when it throws.\<close>

definition files_of ::
  "(HivePartition \<Rightarrow> ext_error + HiveFile list) \<Rightarrow> HivePartition \<Rightarrow> HiveFile list"
where
  "files_of lister part = (case lister part of Inr listed \<Rightarrow> listed | Inl e \<Rightarrow> [])"

text \<open>The lister returns on every partition of the list.\<close>

definition lists_all ::
  "(HivePartition \<Rightarrow> ext_error + HiveFile list) \<Rightarrow> HivePartition list \<Rightarrow> bool"
where
  "lists_all lister partitions =
     list_all (\<lambda>part. case lister part of Inr listed \<Rightarrow> True | Inl e \<Rightarrow> False) partitions"

text \<open>The index, among the pending jobs, of the job the schedule lets through next.\<close>

definition next_job :: "nat list \<Rightarrow> HivePartition list \<Rightarrow> nat" where
  "next_job schedule pending = (case schedule of [] \<Rightarrow> 0 | c # _ \<Rightarrow> c mod length pending)"




subsection \<open>A table to run the model on\<close>

text \<open>
  A table partitioned by year with three partitions in the metastore, of which the pruner
  rejects the first; a lister that finds two bucket files in every partition; an evaluator
  that turns an identifier into its name and a literal into its value; a cluster-by
  expression over the column \<^verbatim>\<open>id\<close> that takes the value modulo 2.
\<close>

definition example_partition :: "string \<Rightarrow> HivePartition" where
  "example_partition year =
     \<lparr>partition_id = year, partition_value = [year], location = ''/warehouse/t/year='' @ year\<rparr>"

definition example_apache_partition :: "string \<Rightarrow> ApachePartition" where
  "example_apache_partition year =
     \<lparr>ap_values = [year],
      ap_sd = \<lparr>sd_location = ''/warehouse/t/year='' @ year,
               inputFormat = ''org.apache.hadoop.hive.ql.io.orc.OrcInputFormat''\<rparr>\<rparr>"

definition example_file :: "HivePartition \<Rightarrow> string \<Rightarrow> HiveFile" where
  "example_file part name =
     \<lparr>file_path = location part @ ''/'' @ name, file_partition = Some part\<rparr>"

definition example_lister :: "HivePartition \<Rightarrow> ext_error + HiveFile list" where
  "example_lister part =
     Inr [example_file part ''000000_0_a'', example_file part ''000001_0_b'']"

definition example_evaluate :: "AST \<Rightarrow> ext_error + Field" where
  "example_evaluate ast =
     (case ast of
        ASTIdentifier name \<Rightarrow> Inr (StringField name)
      | ASTLiteral v \<Rightarrow> Inr v
      | _ \<Rightarrow> Inl (ExtError ''not a constant expression''))"

definition example_execute :: "(string \<times> Field list) list \<Rightarrow> ext_error + UInt64" where
  "example_execute block =
     (case block of
        [(name, [UInt64Field v])] \<Rightarrow> Inr (v mod 2)
      | _ \<Rightarrow> Inl (ExtError ''illegal column''))"

definition example_storage :: StorageCnchHive where
  "example_storage =
     \<lparr>table_name = ''t'', storage_uuid = ''uuid-t'',
      hive_table_sd = \<lparr>sd_location = ''/warehouse/t'',
                       inputFormat = ''org.apache.hadoop.hive.ql.io.orc.OrcInputFormat''\<rparr>,
      hasPartitionKey = True, hasClusterByKey = True,
      cluster_by_required_columns = [''id'']\<rparr>"

definition example_collab :: Collaborators where
  "example_collab =
     \<lparr>check_columns = (\<lambda>names. None),
      getPartitionsByFilter = (\<lambda>filter_string.
        Inr [example_apache_partition ''2023'', example_apache_partition ''2024'',
             example_apache_partition ''2025'']),
      load_partition = (\<lambda>ap.
        \<lparr>partition_id = concat (ap_values ap), partition_value = ap_values ap,
         location = sd_location (ap_sd ap)\<rparr>),
      load_table = (\<lambda>sd. \<lparr>partition_id = [], partition_value = [], location = sd_location sd\<rparr>),
      canBePruned = (\<lambda>id vs. id = ''2023''),
      queryToString = (\<lambda>ast. ''year > 2023''),
      getDiskFromURI = (\<lambda>uri. Inr (Disk uri)),
      list_files = (\<lambda>lister. example_lister),
      evaluateConstantExpressionOrIdentifierAsLiteral = example_evaluate,
      cluster_by_execute = example_execute,
      getWorkerGroupForTable = None,
      build_cloud_table_sql = (\<lambda>name. ''CREATE TABLE '' @ name),
      txn_id = ''42'',
      pool_schedule = [1]\<rparr>"

definition example_settings :: Settings where
  "example_settings =
     \<lparr>max_partitions_to_read = 1, use_hive_metastore_filter = True,
      use_hive_partition_filter = True, use_hive_cluster_key_filter = True\<rparr>"

definition example_conds :: AST where
  "example_conds =
     ASTFunction ''and'' (Some
       [ASTFunction ''equals'' (Some [ASTIdentifier ''id'', ASTLiteral (UInt64Field 5)]),
        ASTFunction ''equals'' (Some [ASTIdentifier ''id'', ASTLiteral (UInt64Field 6)]),
        ASTFunction ''or'' (Some
          [ASTFunction ''equals'' (Some [ASTIdentifier ''name'', ASTLiteral (StringField ''a'')]),
           ASTFunction ''equals'' (Some [ASTIdentifier ''name'', ASTLiteral (StringField ''b'')])])])"

definition example_optimizer :: HiveWhereOptimizer where
  "example_optimizer = \<lparr>partition_key_conds = None, cluster_key_conds = Some example_conds\<rparr>"

text \<open>The same table without a partition key, and a metastore that reports no partition.\<close>

definition unpartitioned_storage :: StorageCnchHive where
  "unpartitioned_storage = example_storage\<lparr>hasPartitionKey := False\<rparr>"

definition empty_metastore :: Collaborators where
  "empty_metastore = example_collab\<lparr>getPartitionsByFilter := (\<lambda>filter_string. Inr [])\<rparr>"


definition initial_state :: PlanningState where
  "initial_state =
     \<lparr>directory_listers = [], thread_pools = [], listing_calls = [], create_queries = [],
      data_parts = []\<rparr>"

section \<open>Properties of the hash index\<close>

lemma scan_digits_takeWhile:
  "scan_digits s r = r + length (takeWhile isdigit (drop r s))"
proof (induction s r rule: scan_digits.induct)
  case (1 s r)
  show ?case
  proof (cases "r < length s")
    case False
    then show ?thesis by (subst scan_digits.simps) simp
  next
    case True
    then have d: "drop r s = s ! r # drop (Suc r) s"
      by (simp add: Cons_nth_drop_Suc)
    show ?thesis
    proof (cases "isdigit (s ! r)")
      case False
      with True d show ?thesis by (subst scan_digits.simps) simp
    next
      case digit: True
      with True have "scan_digits s r = scan_digits s (Suc r)"
        by (subst scan_digits.simps) simp
      also have "\<dots> = Suc r + length (takeWhile isdigit (drop (Suc r) s))"
        using "1.IH" True digit by simp
      finally show ?thesis using d digit by simp
    qed
  qed
qed

lemma get_hash_index_from_position_run:
  "get_hash_index_from_position s pos =
     (let ds = takeWhile isdigit (drop (unat pos) s) in
      if ds = [] then Inr None
      else if INT_MAX < decimal ds then Inl STD_OUT_OF_RANGE
      else Inr (Some (decimal ds)))"
proof -
  define ds where "ds = takeWhile isdigit (drop (unat pos) s)"
  have r: "scan_digits s (unat pos) = unat pos + length ds"
    by (simp add: scan_digits_takeWhile ds_def)
  have sub: "substr s (unat pos) (length ds) = ds"
    unfolding substr_def ds_def by (metis takeWhile_eq_take)
  have st: "ds \<noteq> [] \<Longrightarrow> stoi ds =
      (if INT_MAX < decimal ds then Inl STD_OUT_OF_RANGE else Inr (decimal ds))"
    by (simp add: stoi_def ds_def)
  show ?thesis
    unfolding get_hash_index_from_position_def Let_def r ds_def [symmetric]
    using sub st by (cases "ds = []") auto
qed

lemma npos_plus_one: "npos + 1 = (0 :: size_t)"
  by (simp add: npos_def)

lemma find_last_of_from_absent:
  "\<forall>j<i. s ! j \<noteq> c \<Longrightarrow> find_last_of_from s c i = npos"
  by (induction i) auto

lemma find_last_of_absent:
  "c \<notin> set s \<Longrightarrow> find_last_of s c = npos"
  unfolding find_last_of_def by (rule find_last_of_from_absent) auto

lemma find_last_of_from_present:
  "\<exists>j<i. s ! j = c \<Longrightarrow>
   \<exists>j<i. find_last_of_from s c i = of_nat j \<and> s ! j = c \<and> (\<forall>k. j < k \<and> k < i \<longrightarrow> s ! k \<noteq> c)"
proof (induction i)
  case 0
  then show ?case by simp
next
  case (Suc i)
  show ?case
  proof (cases "s ! i = c")
    case True
    then show ?thesis by (intro exI [of _ i]) auto
  next
    case False
    with Suc.prems have "\<exists>j<i. s ! j = c"
      by (metis less_Suc_eq)
    from Suc.IH [OF this] obtain j where j: "j < i" "find_last_of_from s c i = of_nat j"
      "s ! j = c" "\<forall>k. j < k \<and> k < i \<longrightarrow> s ! k \<noteq> c" by blast
    with False show ?thesis
      by (intro exI [of _ j]) (auto simp: less_Suc_eq)
  qed
qed

lemma after_last_absent: "c \<notin> set s \<Longrightarrow> after_last c s = s"
proof -
  assume "c \<notin> set s"
  then have "\<forall>x \<in> set (rev s). x \<noteq> c" by auto
  then have "takeWhile (\<lambda>x. x \<noteq> c) (rev s) = rev s"
    by (rule takeWhile_eq_all_conv [THEN iffD2])
  then show ?thesis by (simp only: after_last_def rev_rev_ident)
qed

lemma after_last_drop:
  assumes "j < length s" "s ! j = c" "\<forall>k. j < k \<and> k < length s \<longrightarrow> s ! k \<noteq> c"
  shows "after_last c s = drop (Suc j) s"
proof -
  have all: "\<forall>x \<in> set (drop (Suc j) s). x \<noteq> c"
  proof
    fix x assume "x \<in> set (drop (Suc j) s)"
    then obtain i where i: "i < length s - Suc j" "x = drop (Suc j) s ! i"
      by (auto simp: in_set_conv_nth)
    then have "x = s ! (Suc j + i)" by simp
    moreover have "j < Suc j + i \<and> Suc j + i < length s" using i(1) by simp
    ultimately show "x \<noteq> c" using assms(3) by blast
  qed
  have "s = take j s @ c # drop (Suc j) s"
    using assms(1,2) by (metis id_take_nth_drop)
  then have "rev s = rev (drop (Suc j) s) @ c # rev (take j s)"
    by (metis rev.simps(2) rev_append append.assoc append_Cons append_Nil)
  moreover have "takeWhile (\<lambda>x. x \<noteq> c) (rev (drop (Suc j) s) @ c # rev (take j s))
      = rev (drop (Suc j) s)"
    using all by (simp add: takeWhile_append2 [where P = "\<lambda>x. x \<noteq> c"] takeWhile_tail)
  ultimately show ?thesis by (simp add: after_last_def)
qed

lemma drop_after_find_last_of:
  assumes "length s < 2 ^ 64"
  shows "drop (unat (find_last_of s c + 1)) s = after_last c s"
proof (cases "c \<in> set s")
  case False
  then show ?thesis
    by (simp add: find_last_of_absent npos_plus_one after_last_absent)
next
  case True
  then have "\<exists>j<length s. s ! j = c" by (auto simp: in_set_conv_nth)
  from find_last_of_from_present [OF this] obtain j where j: "j < length s"
    "find_last_of s c = of_nat j" "s ! j = c" "\<forall>k. j < k \<and> k < length s \<longrightarrow> s ! k \<noteq> c"
    unfolding find_last_of_def by blast
  have "unat (find_last_of s c + 1) = unat (of_nat (Suc j) :: size_t)"
    using j(2) by (simp add: add.commute)
  also have "\<dots> = Suc j"
    using j(1) assms by (subst unat_of_nat) (simp del: of_nat_Suc)
  finally have "unat (find_last_of s c + 1) = Suc j" .
  then show ?thesis
    using after_last_drop [OF j(1) j(3) j(4)] by (simp only:)
qed


lemma decimal_foldl_nonneg:
  "0 \<le> acc \<Longrightarrow> \<forall>c \<in> set ds. isdigit c \<Longrightarrow>
   0 \<le> foldl (\<lambda>acc c. 10 * acc + digit_value c) acc ds"
proof (induction ds arbitrary: acc)
  case Nil
  then show ?case by simp
next
  case (Cons d ds)
  from Cons.prems have "0 \<le> digit_value d"
    by (simp add: isdigit_def digit_value_def)
  with Cons.prems have "0 \<le> 10 * acc + digit_value d" by simp
  with Cons show ?case by simp
qed

lemma decimal_run_nonneg: "0 \<le> decimal (takeWhile isdigit xs)"
  unfolding decimal_def
  by (rule decimal_foldl_nonneg) (auto dest: set_takeWhileD)

lemma uint_of_decimal_run:
  assumes "decimal (takeWhile isdigit xs) \<le> INT_MAX"
  shows "uint (word_of_int (decimal (takeWhile isdigit xs)) :: UInt64) = decimal (takeWhile isdigit xs)"
proof -
  have "0 \<le> decimal (takeWhile isdigit xs)" by (rule decimal_run_nonneg)
  moreover have "decimal (takeWhile isdigit xs) < 2 ^ 64"
    using assms by (simp add: INT_MAX_def)
  ultimately show ?thesis
    by (simp add: uint_word_of_int)
qed

lemma get_file_hash_index_runs:
  "get_file_hash_index s =
     (let r1 = takeWhile isdigit (drop (unat (find_last_of s (CHR ''_'') + 1)) s);
          r2 = takeWhile isdigit (drop (unat (find_last_of s (CHR ''/'') + 1)) s)
      in if r1 \<noteq> [] then
           (if INT_MAX < decimal r1 then Inl STD_OUT_OF_RANGE
            else Inr (Some (word_of_int (decimal r1))))
         else if r2 \<noteq> [] then
           (if INT_MAX < decimal r2 then Inl STD_OUT_OF_RANGE
            else Inr (Some (word_of_int (decimal r2))))
         else Inr None)"
  unfolding get_file_hash_index_def get_hash_index_from_position_run
  by (simp add: Let_def to_optional_UInt64_def)

subsection \<open>The three paths of the specification\<close>

lemma hash_index_tea:
  "get_file_hash_index ''part-00000-5cf7580f-a3f6-4beb-90a6-e9f4de61c887_00003.c000''
     = Inr (Some 3)"
  by code_simp

lemma hash_index_trino:
  "get_file_hash_index
     ''/000003_0_66add4ef-d1fc-4015-87b4-6962de044323_20240229_033029_00033_erdcf''
     = Inr (Some 3)"
  by code_simp

lemma hash_index_no_digits: "get_file_hash_index ''no_digits_here'' = Inr None"
  by code_simp

text \<open>
  Claim C1, as the code has it. The path of the first convention gives 3 and the path with
  no digit after a separator gives no index. On the path of the second convention the
  last underscore is followed by the letters \<^verbatim>\<open>erdcf\<close>, so the first rule finds no digit and
  the second rule reads \<^verbatim>\<open>000003\<close> after the slash: the index is 3, the bucket number at
  the start of the file name, and not 33.
\<close>

theorem get_file_hash_index_examples:
  "get_file_hash_index ''part-00000-5cf7580f-a3f6-4beb-90a6-e9f4de61c887_00003.c000''
     = Inr (Some 3)
   \<and> get_file_hash_index
     ''/000003_0_66add4ef-d1fc-4015-87b4-6962de044323_20240229_033029_00033_erdcf''
     = Inr (Some 3)
   \<and> get_file_hash_index ''no_digits_here'' = Inr None"
  using hash_index_tea hash_index_trino hash_index_no_digits by (intro conjI)

text \<open>Claim C1 as stated fails on its second path: the result there is not 33.\<close>

theorem get_file_hash_index_trino_not_33:
  "get_file_hash_index
     ''/000003_0_66add4ef-d1fc-4015-87b4-6962de044323_20240229_033029_00033_erdcf''
     \<noteq> Inr (Some 33)"
  by (simp add: hash_index_trino)

subsection \<open>The two-tier rule\<close>

lemma hash_index_123: "get_file_hash_index ''123'' = Inr (Some 123)"
  by code_simp

lemma spec_hash_index_123: "spec_file_hash_index ''123'' = None"
  by code_simp

lemma hash_index_long_run: "get_file_hash_index ''_99999999999'' = Inl STD_OUT_OF_RANGE"
  by code_simp

lemma spec_hash_index_long_run: "spec_file_hash_index ''_99999999999'' = Some 99999999999"
  by code_simp

text \<open>
  Claim C2 as stated fails on two paths. The path \<^verbatim>\<open>123\<close> has neither an underscore nor a
  slash, so no run of digits follows one and the rule of the specification gives no index,
  while the code scans from the start of the path and returns 123. On the path
  \<^verbatim>\<open>_99999999999\<close> the run after the underscore is the unsigned integer 99999999999, which
  the code does not return: \<^verbatim>\<open>std::stoi\<close> throws \<^verbatim>\<open>std::out_of_range\<close>.
\<close>

theorem get_file_hash_index_no_separator:
  "get_file_hash_index ''123'' = Inr (Some 123)
   \<and> spec_file_hash_index ''123'' = None
   \<and> get_file_hash_index ''123''
       \<noteq> Inr (map_option word_of_int (spec_file_hash_index ''123''))
   \<and> get_file_hash_index ''_99999999999'' = Inl STD_OUT_OF_RANGE
   \<and> spec_file_hash_index ''_99999999999'' = Some 99999999999
   \<and> get_file_hash_index ''_99999999999''
       \<noteq> Inr (map_option word_of_int (spec_file_hash_index ''_99999999999''))"
  by (simp add: hash_index_123 spec_hash_index_123 hash_index_long_run
      spec_hash_index_long_run)

text \<open>
  Claim C2, amended. For a path that fits a \<^verbatim>\<open>std::string\<close>, let the first run be the digits
  right after the last underscore, or at the start of the path when it has no underscore,
  and the second run the same for the slash. When the first run is not empty and its value
  is at most \<^verbatim>\<open>INT_MAX\<close>, the result is that value; when the first run is empty and the
  second is not, with a value of at most \<^verbatim>\<open>INT_MAX\<close>, the result is the value of the
  second; when both are empty there is no index. The order is kept on every path: a
  result returned for a path whose first run is not empty is the value of the first run
  and never that of the second, a result returned for a path whose first run is empty
  and whose second is not is the value of the second, and no index is returned only when
  both runs are empty. Nothing else is said of a run whose value exceeds \<^verbatim>\<open>INT_MAX\<close>.
\<close>

theorem get_file_hash_index_two_tier:
  assumes "length s < 2 ^ 64"
  shows "(run_after (CHR ''_'') s \<noteq> [] \<and> decimal (run_after (CHR ''_'') s) \<le> INT_MAX \<longrightarrow>
            get_file_hash_index s = Inr (Some (word_of_int (decimal (run_after (CHR ''_'') s))))
            \<and> uint (word_of_int (decimal (run_after (CHR ''_'') s)) :: UInt64)
                = decimal (run_after (CHR ''_'') s))
       \<and> (run_after (CHR ''_'') s = [] \<and> run_after (CHR ''/'') s \<noteq> []
            \<and> decimal (run_after (CHR ''/'') s) \<le> INT_MAX \<longrightarrow>
            get_file_hash_index s = Inr (Some (word_of_int (decimal (run_after (CHR ''/'') s))))
            \<and> uint (word_of_int (decimal (run_after (CHR ''/'') s)) :: UInt64)
                = decimal (run_after (CHR ''/'') s))
       \<and> (run_after (CHR ''_'') s = [] \<and> run_after (CHR ''/'') s = [] \<longrightarrow>
            get_file_hash_index s = Inr None)
       \<and> (run_after (CHR ''_'') s \<noteq> [] \<and> get_file_hash_index s = Inr r \<longrightarrow>
            r = Some (word_of_int (decimal (run_after (CHR ''_'') s)))
            \<and> decimal (run_after (CHR ''_'') s) \<le> INT_MAX)
       \<and> (run_after (CHR ''_'') s = [] \<and> run_after (CHR ''/'') s \<noteq> []
            \<and> get_file_hash_index s = Inr r \<longrightarrow>
            r = Some (word_of_int (decimal (run_after (CHR ''/'') s)))
            \<and> decimal (run_after (CHR ''/'') s) \<le> INT_MAX)
       \<and> (get_file_hash_index s = Inr None \<longrightarrow>
            run_after (CHR ''_'') s = [] \<and> run_after (CHR ''/'') s = [])"
proof -
  have r1: "takeWhile isdigit (drop (unat (find_last_of s (CHR ''_'') + 1)) s)
      = run_after (CHR ''_'') s"
    using assms by (simp add: drop_after_find_last_of run_after_def)
  have r2: "takeWhile isdigit (drop (unat (find_last_of s (CHR ''/'') + 1)) s)
      = run_after (CHR ''/'') s"
    using assms by (simp add: drop_after_find_last_of run_after_def)
  have u: "\<And>c. decimal (run_after c s) \<le> INT_MAX \<Longrightarrow>
      uint (word_of_int (decimal (run_after c s)) :: UInt64) = decimal (run_after c s)"
    unfolding run_after_def by (rule uint_of_decimal_run)
  have g: "get_file_hash_index s =
     (if run_after (CHR ''_'') s \<noteq> [] then
        (if INT_MAX < decimal (run_after (CHR ''_'') s) then Inl STD_OUT_OF_RANGE
         else Inr (Some (word_of_int (decimal (run_after (CHR ''_'') s)))))
      else if run_after (CHR ''/'') s \<noteq> [] then
        (if INT_MAX < decimal (run_after (CHR ''/'') s) then Inl STD_OUT_OF_RANGE
         else Inr (Some (word_of_int (decimal (run_after (CHR ''/'') s)))))
      else Inr None)"
    unfolding get_file_hash_index_runs r1 r2 Let_def ..
  have a: "run_after (CHR ''_'') s \<noteq> [] \<and> decimal (run_after (CHR ''_'') s) \<le> INT_MAX \<longrightarrow>
            get_file_hash_index s = Inr (Some (word_of_int (decimal (run_after (CHR ''_'') s))))
            \<and> uint (word_of_int (decimal (run_after (CHR ''_'') s)) :: UInt64)
                = decimal (run_after (CHR ''_'') s)"
    using u by (simp add: g)
  have b: "run_after (CHR ''_'') s = [] \<and> run_after (CHR ''/'') s \<noteq> []
            \<and> decimal (run_after (CHR ''/'') s) \<le> INT_MAX \<longrightarrow>
            get_file_hash_index s = Inr (Some (word_of_int (decimal (run_after (CHR ''/'') s))))
            \<and> uint (word_of_int (decimal (run_after (CHR ''/'') s)) :: UInt64)
                = decimal (run_after (CHR ''/'') s)"
    using u by (simp add: g)
  have c: "run_after (CHR ''_'') s = [] \<and> run_after (CHR ''/'') s = [] \<longrightarrow>
            get_file_hash_index s = Inr None"
    by (simp add: g)
  have d: "run_after (CHR ''_'') s \<noteq> [] \<and> get_file_hash_index s = Inr r \<longrightarrow>
            r = Some (word_of_int (decimal (run_after (CHR ''_'') s)))
            \<and> decimal (run_after (CHR ''_'') s) \<le> INT_MAX"
    by (auto simp: g split: if_splits)
  have e: "run_after (CHR ''_'') s = [] \<and> run_after (CHR ''/'') s \<noteq> []
            \<and> get_file_hash_index s = Inr r \<longrightarrow>
            r = Some (word_of_int (decimal (run_after (CHR ''/'') s)))
            \<and> decimal (run_after (CHR ''/'') s) \<le> INT_MAX"
    by (auto simp: g split: if_splits)
  have f: "get_file_hash_index s = Inr None \<longrightarrow>
            run_after (CHR ''_'') s = [] \<and> run_after (CHR ''/'') s = []"
    by (auto simp: g split: if_splits)
  from a b c d e f show ?thesis by (intro conjI)
qed

theorem get_file_hash_index_two_tier_witness:
  "length ''a_12.c'' < 2 ^ 64
   \<and> run_after (CHR ''_'') ''a_12.c'' = ''12''
   \<and> get_file_hash_index ''a_12.c'' = Inr (Some 12)
   \<and> run_after (CHR ''_'') ''/7_x'' = [] \<and> run_after (CHR ''/'') ''/7_x'' = ''7''
   \<and> get_file_hash_index ''/7_x'' = Inr (Some 7)
   \<and> run_after (CHR ''_'') ''a_b'' = [] \<and> run_after (CHR ''/'') ''a_b'' = []
   \<and> get_file_hash_index ''a_b'' = Inr None
   \<and> run_after (CHR ''_'') ''/7_12'' = ''12'' \<and> run_after (CHR ''/'') ''/7_12'' = ''7''
   \<and> get_file_hash_index ''/7_12'' = Inr (Some 12)
   \<and> Some (12 :: UInt64) = Some (word_of_int (decimal (run_after (CHR ''_'') ''/7_12'')))"
proof -
  have a1: "run_after (CHR ''_'') ''a_12.c'' = ''12''" by code_simp
  have b1: "run_after (CHR ''_'') ''/7_x'' = []" by code_simp
  have b2: "run_after (CHR ''/'') ''/7_x'' = ''7''" by code_simp
  have c1: "run_after (CHR ''_'') ''a_b'' = []" by code_simp
  have c2: "run_after (CHR ''/'') ''a_b'' = []" by code_simp
  have e1: "run_after (CHR ''_'') ''/7_12'' = ''12''" by code_simp
  have e2: "run_after (CHR ''/'') ''/7_12'' = ''7''" by code_simp
  have e3: "get_file_hash_index ''/7_12'' = Inr (Some 12)" by code_simp
  have d1: "decimal ''12'' = 12" by code_simp
  have d2: "decimal ''7'' = 7" by code_simp
  have la: "length ''a_12.c'' < 2 ^ 64" by simp
  have lb: "length ''/7_x'' < 2 ^ 64" by simp
  have lc: "length ''a_b'' < 2 ^ 64" by simp
  have le: "length ''/7_12'' < 2 ^ 64" by simp
  have ha: "run_after (CHR ''_'') ''a_12.c'' \<noteq> []
      \<and> decimal (run_after (CHR ''_'') ''a_12.c'') \<le> INT_MAX"
    by (simp add: a1 d1 INT_MAX_def)
  have hb: "run_after (CHR ''_'') ''/7_x'' = [] \<and> run_after (CHR ''/'') ''/7_x'' \<noteq> []
      \<and> decimal (run_after (CHR ''/'') ''/7_x'') \<le> INT_MAX"
    by (simp add: b1 b2 d2 INT_MAX_def)
  have hc: "run_after (CHR ''_'') ''a_b'' = [] \<and> run_after (CHR ''/'') ''a_b'' = []"
    by (simp add: c1 c2)
  have he: "run_after (CHR ''_'') ''/7_12'' \<noteq> []
      \<and> get_file_hash_index ''/7_12'' = Inr (Some 12)"
    by (simp add: e1 e3)
  have 1: "get_file_hash_index ''a_12.c'' = Inr (Some 12)"
    using get_file_hash_index_two_tier [OF la, THEN conjunct1, THEN mp, OF ha]
    by (simp add: a1 d1)
  have 2: "get_file_hash_index ''/7_x'' = Inr (Some 7)"
    using get_file_hash_index_two_tier [OF lb, THEN conjunct2, THEN conjunct1, THEN mp, OF hb]
    by (simp add: b2 d2)
  have 3: "get_file_hash_index ''a_b'' = Inr None"
    using get_file_hash_index_two_tier [OF lc, THEN conjunct2, THEN conjunct2, THEN conjunct1,
        THEN mp, OF hc] .
  have 4: "Some (12 :: UInt64) = Some (word_of_int (decimal (run_after (CHR ''_'') ''/7_12'')))"
    using get_file_hash_index_two_tier [OF le, where r = "Some 12", THEN conjunct2,
        THEN conjunct2, THEN conjunct2, THEN conjunct1, THEN mp, OF he]
    by (rule conjunct1)
  from la a1 1 b1 b2 2 c1 c2 3 e1 e2 e3 4 show ?thesis by (intro conjI)
qed

subsection \<open>A path without the separator\<close>

lemma leading_run_long: "takeWhile isdigit ''99999999999.orc'' = ''99999999999''"
  by code_simp

lemma hash_index_leading_run_long:
  "get_file_hash_index ''99999999999.orc'' = Inl STD_OUT_OF_RANGE"
  by code_simp

text \<open>
  Claim C9 as stated fails: the path \<^verbatim>\<open>99999999999.orc\<close> has no underscore and begins with
  decimal digits, and the code does not yield the leading run as its index, since
  \<^verbatim>\<open>std::stoi\<close> throws \<^verbatim>\<open>std::out_of_range\<close> on it.
\<close>

theorem get_file_hash_index_leading_run_out_of_range:
  "CHR ''_'' \<notin> set ''99999999999.orc''
   \<and> takeWhile isdigit ''99999999999.orc'' = ''99999999999''
   \<and> get_file_hash_index ''99999999999.orc'' = Inl STD_OUT_OF_RANGE
   \<and> get_file_hash_index ''99999999999.orc''
       \<noteq> Inr (Some (word_of_int (decimal (takeWhile isdigit ''99999999999.orc''))))"
proof (intro conjI)
  show "CHR ''_'' \<notin> set ''99999999999.orc''" by simp
  show "takeWhile isdigit ''99999999999.orc'' = ''99999999999''" by (rule leading_run_long)
  show "get_file_hash_index ''99999999999.orc'' = Inl STD_OUT_OF_RANGE"
    by (rule hash_index_leading_run_long)
  show "get_file_hash_index ''99999999999.orc''
       \<noteq> Inr (Some (word_of_int (decimal (takeWhile isdigit ''99999999999.orc''))))"
    unfolding hash_index_leading_run_long by simp
qed

text \<open>
  Claim C9, amended. When the path has no underscore, \<^verbatim>\<open>find_last_of\<close> returns \<^verbatim>\<open>npos\<close>,
  adding one wraps to 0 and the first rule scans from position 0 of the whole path. For a
  path that starts with digits the result is then never none: every result returned is
  the value of the leading run, which is at most \<^verbatim>\<open>INT_MAX\<close>, and that value is returned
  whenever it is at most \<^verbatim>\<open>INT_MAX\<close>. The same holds for the slash of the second rule,
  which yields the leading run when the first rule found nothing. Nothing else is said of
  a leading run whose value exceeds \<^verbatim>\<open>INT_MAX\<close>.
\<close>

theorem get_file_hash_index_npos_wrap:
  "(CHR ''_'' \<notin> set s \<longrightarrow>
      find_last_of s (CHR ''_'') = npos
      \<and> find_last_of s (CHR ''_'') + 1 = 0
      \<and> get_hash_index_from_position s (find_last_of s (CHR ''_'') + 1)
          = get_hash_index_from_position s 0
      \<and> (takeWhile isdigit s \<noteq> [] \<longrightarrow> get_file_hash_index s \<noteq> Inr None)
      \<and> (takeWhile isdigit s \<noteq> [] \<and> decimal (takeWhile isdigit s) \<le> INT_MAX \<longrightarrow>
            get_file_hash_index s = Inr (Some (word_of_int (decimal (takeWhile isdigit s))))
            \<and> uint (word_of_int (decimal (takeWhile isdigit s)) :: UInt64)
                = decimal (takeWhile isdigit s))
      \<and> (takeWhile isdigit s \<noteq> [] \<and> get_file_hash_index s = Inr r \<longrightarrow>
            r = Some (word_of_int (decimal (takeWhile isdigit s)))
            \<and> decimal (takeWhile isdigit s) \<le> INT_MAX))
   \<and> (CHR ''/'' \<notin> set s \<longrightarrow>
      find_last_of s (CHR ''/'') = npos
      \<and> find_last_of s (CHR ''/'') + 1 = 0
      \<and> get_hash_index_from_position s (find_last_of s (CHR ''/'') + 1)
          = get_hash_index_from_position s 0
      \<and> (get_hash_index_from_position s (find_last_of s (CHR ''_'') + 1) = Inr None
           \<and> takeWhile isdigit s \<noteq> [] \<and> decimal (takeWhile isdigit s) \<le> INT_MAX \<longrightarrow>
            get_file_hash_index s = Inr (Some (word_of_int (decimal (takeWhile isdigit s)))))
      \<and> (get_hash_index_from_position s (find_last_of s (CHR ''_'') + 1) = Inr None
           \<and> takeWhile isdigit s \<noteq> [] \<and> get_file_hash_index s = Inr r \<longrightarrow>
            r = Some (word_of_int (decimal (takeWhile isdigit s)))
            \<and> decimal (takeWhile isdigit s) \<le> INT_MAX))"
proof (intro conjI impI)
  assume a: "CHR ''_'' \<notin> set s"
  show n: "find_last_of s (CHR ''_'') = npos" using a by (rule find_last_of_absent)
  show z: "find_last_of s (CHR ''_'') + 1 = 0" by (simp add: n npos_plus_one)
  show "get_hash_index_from_position s (find_last_of s (CHR ''_'') + 1)
          = get_hash_index_from_position s 0" by (simp add: z)
  have g: "get_hash_index_from_position s (find_last_of s (CHR ''_'') + 1) =
      (if takeWhile isdigit s = [] then Inr None
       else if INT_MAX < decimal (takeWhile isdigit s) then Inl STD_OUT_OF_RANGE
       else Inr (Some (decimal (takeWhile isdigit s))))"
    by (simp add: z get_hash_index_from_position_run)
  { assume "takeWhile isdigit s \<noteq> []"
    then show "get_file_hash_index s \<noteq> Inr None"
      by (simp add: get_file_hash_index_def g to_optional_UInt64_def) }
  { assume b: "takeWhile isdigit s \<noteq> [] \<and> decimal (takeWhile isdigit s) \<le> INT_MAX"
    then show "get_file_hash_index s = Inr (Some (word_of_int (decimal (takeWhile isdigit s))))"
      by (simp add: get_file_hash_index_def g to_optional_UInt64_def)
    from b show "uint (word_of_int (decimal (takeWhile isdigit s)) :: UInt64)
                = decimal (takeWhile isdigit s)"
      by (simp add: uint_of_decimal_run) }
  { assume c: "takeWhile isdigit s \<noteq> [] \<and> get_file_hash_index s = Inr r"
    then show "r = Some (word_of_int (decimal (takeWhile isdigit s)))"
      by (auto simp: get_file_hash_index_def g to_optional_UInt64_def split: if_splits)
    from c show "decimal (takeWhile isdigit s) \<le> INT_MAX"
      by (auto simp: get_file_hash_index_def g to_optional_UInt64_def split: if_splits) }
next
  assume a: "CHR ''/'' \<notin> set s"
  show n: "find_last_of s (CHR ''/'') = npos" using a by (rule find_last_of_absent)
  show z: "find_last_of s (CHR ''/'') + 1 = 0" by (simp add: n npos_plus_one)
  show "get_hash_index_from_position s (find_last_of s (CHR ''/'') + 1)
          = get_hash_index_from_position s 0" by (simp add: z)
  have g: "get_hash_index_from_position s (find_last_of s (CHR ''/'') + 1) =
      (if takeWhile isdigit s = [] then Inr None
       else if INT_MAX < decimal (takeWhile isdigit s) then Inl STD_OUT_OF_RANGE
       else Inr (Some (decimal (takeWhile isdigit s))))"
    by (simp add: z get_hash_index_from_position_run)
  { assume b: "get_hash_index_from_position s (find_last_of s (CHR ''_'') + 1) = Inr None
           \<and> takeWhile isdigit s \<noteq> [] \<and> decimal (takeWhile isdigit s) \<le> INT_MAX"
    then show "get_file_hash_index s = Inr (Some (word_of_int (decimal (takeWhile isdigit s))))"
      by (simp add: get_file_hash_index_def g to_optional_UInt64_def) }
  { assume c: "get_hash_index_from_position s (find_last_of s (CHR ''_'') + 1) = Inr None
           \<and> takeWhile isdigit s \<noteq> [] \<and> get_file_hash_index s = Inr r"
    then show "r = Some (word_of_int (decimal (takeWhile isdigit s)))"
      by (auto simp: get_file_hash_index_def g to_optional_UInt64_def split: if_splits)
    from c show "decimal (takeWhile isdigit s) \<le> INT_MAX"
      by (auto simp: get_file_hash_index_def g to_optional_UInt64_def split: if_splits) }
qed

theorem get_file_hash_index_npos_wrap_witness:
  "CHR ''_'' \<notin> set ''42-a.orc''
   \<and> find_last_of ''42-a.orc'' (CHR ''_'') + 1 = 0
   \<and> takeWhile isdigit ''42-a.orc'' = ''42''
   \<and> get_file_hash_index ''42-a.orc'' = Inr (Some 42)
   \<and> Some (42 :: UInt64) = Some (word_of_int (decimal (takeWhile isdigit ''42-a.orc'')))
   \<and> CHR ''/'' \<notin> set ''000003_0_abc''
   \<and> find_last_of ''000003_0_abc'' (CHR ''/'') + 1 = 0
   \<and> get_hash_index_from_position ''000003_0_abc''
        (find_last_of ''000003_0_abc'' (CHR ''_'') + 1) = Inr None
   \<and> get_file_hash_index ''000003_0_abc'' = Inr (Some 3)"
proof -
  have a: "CHR ''_'' \<notin> set ''42-a.orc''" by simp
  have t: "takeWhile isdigit ''42-a.orc'' = ''42''" by code_simp
  have d: "decimal ''42'' = 42" by code_simp
  have b: "CHR ''/'' \<notin> set ''000003_0_abc''" by simp
  have t': "takeWhile isdigit ''000003_0_abc'' = ''000003''" by code_simp
  have d': "decimal ''000003'' = 3" by code_simp
  have f: "get_hash_index_from_position ''000003_0_abc''
        (find_last_of ''000003_0_abc'' (CHR ''_'') + 1) = Inr None" by code_simp
  note u = get_file_hash_index_npos_wrap [where s = "''42-a.orc''" and r = "Some 42",
      THEN conjunct1, THEN mp, OF a]
  note v = get_file_hash_index_npos_wrap [where s = "''000003_0_abc''",
      THEN conjunct2, THEN mp, OF b]
  have 1: "find_last_of ''42-a.orc'' (CHR ''_'') + 1 = 0"
    using u by blast
  have h: "takeWhile isdigit ''42-a.orc'' \<noteq> []
      \<and> decimal (takeWhile isdigit ''42-a.orc'') \<le> INT_MAX"
    unfolding t d by (simp add: INT_MAX_def)
  have "get_file_hash_index ''42-a.orc''
      = Inr (Some (word_of_int (decimal (takeWhile isdigit ''42-a.orc''))))"
    using u h by blast
  then have 2: "get_file_hash_index ''42-a.orc'' = Inr (Some 42)"
    unfolding t d by simp
  have "takeWhile isdigit ''42-a.orc'' \<noteq> [] \<and> get_file_hash_index ''42-a.orc'' = Inr (Some 42)"
    using h 2 by blast
  with u have 3: "Some (42 :: UInt64)
      = Some (word_of_int (decimal (takeWhile isdigit ''42-a.orc'')))"
    by blast
  have 4: "find_last_of ''000003_0_abc'' (CHR ''/'') + 1 = 0"
    using v by blast
  have h': "get_hash_index_from_position ''000003_0_abc''
        (find_last_of ''000003_0_abc'' (CHR ''_'') + 1) = Inr None
      \<and> takeWhile isdigit ''000003_0_abc'' \<noteq> []
      \<and> decimal (takeWhile isdigit ''000003_0_abc'') \<le> INT_MAX"
    unfolding f t' d' by (simp add: INT_MAX_def)
  have "get_file_hash_index ''000003_0_abc''
      = Inr (Some (word_of_int (decimal (takeWhile isdigit ''000003_0_abc''))))"
    using v h' by blast
  then have 5: "get_file_hash_index ''000003_0_abc'' = Inr (Some 3)"
    unfolding t' d' by simp
  from a 1 t 2 3 b 4 f 5 show ?thesis by (intro conjI)
qed

section \<open>Properties of bucket pruning\<close>

lemma remove_if_Inr:
  "remove_if pred xs = Inr ys \<Longrightarrow> ys = filter (\<lambda>x. pred x = Inr False) xs"
proof (induction xs arbitrary: ys)
  case Nil
  then show ?case by simp
next
  case (Cons x xs)
  from Cons.prems obtain b zs where b: "pred x = Inr b" and zs: "remove_if pred xs = Inr zs"
    and ys: "ys = (if b then zs else x # zs)"
    by (auto split: sum.splits)
  from Cons.IH [OF zs] have "zs = filter (\<lambda>x. pred x = Inr False) xs" .
  with b ys show ?case by simp
qed

lemma remove_if_returns:
  "(\<exists>ys. remove_if pred xs = Inr ys) \<longleftrightarrow> (\<forall>x \<in> set xs. \<exists>b. pred x = Inr b)"
proof (induction xs)
  case Nil
  show ?case by simp
next
  case (Cons x xs)
  show ?case
  proof (cases "pred x")
    case (Inl e)
    then show ?thesis by auto
  next
    case (Inr b)
    then show ?thesis using Cons.IH by (auto split: sum.splits)
  qed
qed


lemma bucket_mismatch_Some:
  "bucket_mismatch (Some b) f =
     (case get_file_hash_index (file_path f) of
        Inl e \<Rightarrow> Inl e
      | Inr h \<Rightarrow> Inr (\<exists>i. h = Some i \<and> i \<noteq> b))"
  by (cases "get_file_hash_index (file_path f)") (auto simp: bucket_mismatch_def)

lemma bucket_mismatch_False:
  "(bucket_mismatch (Some b) f = Inr False) \<longleftrightarrow>
   (\<exists>h. get_file_hash_index (file_path f) = Inr h)
   \<and> \<not> (\<exists>i. get_file_hash_index (file_path f) = Inr (Some i) \<and> i \<noteq> b)"
  by (cases "get_file_hash_index (file_path f)") (simp_all add: bucket_mismatch_Some)

lemma bucket_mismatch_returns:
  "(\<exists>r. bucket_mismatch (Some b) f = Inr r) \<longleftrightarrow> (\<exists>h. get_file_hash_index (file_path f) = Inr h)"
  by (cases "get_file_hash_index (file_path f)") (simp_all add: bucket_mismatch_Some)

lemma remove_if_no_bucket: "remove_if (bucket_mismatch None) xs = Inr xs"
  by (induction xs) (simp_all add: bucket_mismatch_def)


text \<open>
  Claim C3. With a required bucket \<open>b\<close>, a pruning step that returns keeps exactly the
  files that are not removable, in their order, where a file is removable when the hash
  index of its path is known and differs from \<open>b\<close>; the step returns exactly when the
  extraction of the index returns on every path (it throws what \<^verbatim>\<open>std::stoi\<close> throws
  otherwise). A file whose path has no index is kept for every required bucket, and with
  no required bucket every file is kept.
\<close>

theorem prune_files_known_mismatch:
  "(prune_files (Some b) files = Inr out \<longrightarrow>
      out = filter (\<lambda>f. \<not> (\<exists>i. get_file_hash_index (file_path f) = Inr (Some i) \<and> i \<noteq> b)) files)
   \<and> ((\<exists>kept. prune_files (Some b) files = Inr kept) \<longleftrightarrow>
        (\<forall>f \<in> set files. \<exists>h. get_file_hash_index (file_path f) = Inr h))
   \<and> (prune_files required_bucket files = Inr out \<and> f \<in> set files
        \<and> get_file_hash_index (file_path f) = Inr None \<longrightarrow> f \<in> set out)
   \<and> prune_files None files = Inr files"
proof -
  have ret: "(\<exists>kept. prune_files (Some b) files = Inr kept) \<longleftrightarrow>
        (\<forall>f \<in> set files. \<exists>h. get_file_hash_index (file_path f) = Inr h)"
    unfolding prune_files_def remove_if_returns bucket_mismatch_returns ..
  have flt: "out = filter (\<lambda>f. \<not> (\<exists>i. get_file_hash_index (file_path f) = Inr (Some i) \<and> i \<noteq> b)) files"
    if a: "prune_files (Some b) files = Inr out"
  proof -
    from a ret have h: "\<forall>f \<in> set files. \<exists>h. get_file_hash_index (file_path f) = Inr h"
      by blast
    from a have "out = filter (\<lambda>f. bucket_mismatch (Some b) f = Inr False) files"
      unfolding prune_files_def by (rule remove_if_Inr)
    also have "\<dots> = filter (\<lambda>f. \<not> (\<exists>i. get_file_hash_index (file_path f) = Inr (Some i) \<and> i \<noteq> b)) files"
      using h by (intro filter_cong refl) (simp add: bucket_mismatch_False)
    finally show ?thesis .
  qed
  have keep: "f \<in> set out"
    if a: "prune_files required_bucket files = Inr out \<and> f \<in> set files
        \<and> get_file_hash_index (file_path f) = Inr None"
  proof -
    from a have "bucket_mismatch required_bucket f = Inr False"
      by (simp add: bucket_mismatch_def split: option.splits)
    moreover from a have "out = filter (\<lambda>f. bucket_mismatch required_bucket f = Inr False) files"
      unfolding prune_files_def by (intro remove_if_Inr) simp
    ultimately show ?thesis using a by simp
  qed
  have none: "prune_files None files = Inr files"
    by (simp add: prune_files_def remove_if_no_bucket)
  from flt ret keep none show ?thesis by blast
qed


lemma prune_example:
  "prune_files (Some 1)
     [\<lparr>file_path = ''/t/a_1'', file_partition = None\<rparr>,
      \<lparr>file_path = ''/t/b_2'', file_partition = None\<rparr>,
      \<lparr>file_path = ''/t/nodigits'', file_partition = None\<rparr>]
   = Inr [\<lparr>file_path = ''/t/a_1'', file_partition = None\<rparr>,
          \<lparr>file_path = ''/t/nodigits'', file_partition = None\<rparr>]"
  by code_simp

lemma hash_index_nodigits: "get_file_hash_index ''/t/nodigits'' = Inr None"
  by code_simp

theorem prune_files_known_mismatch_witness:
  "prune_files (Some 1)
     [\<lparr>file_path = ''/t/a_1'', file_partition = None\<rparr>,
      \<lparr>file_path = ''/t/b_2'', file_partition = None\<rparr>,
      \<lparr>file_path = ''/t/nodigits'', file_partition = None\<rparr>]
   = Inr [\<lparr>file_path = ''/t/a_1'', file_partition = None\<rparr>,
          \<lparr>file_path = ''/t/nodigits'', file_partition = None\<rparr>]
   \<and> filter (\<lambda>f. \<not> (\<exists>i. get_file_hash_index (file_path f) = Inr (Some i) \<and> i \<noteq> 1))
     [\<lparr>file_path = ''/t/a_1'', file_partition = None\<rparr>,
      \<lparr>file_path = ''/t/b_2'', file_partition = None\<rparr>,
      \<lparr>file_path = ''/t/nodigits'', file_partition = None\<rparr>]
   = [\<lparr>file_path = ''/t/a_1'', file_partition = None\<rparr>,
      \<lparr>file_path = ''/t/nodigits'', file_partition = None\<rparr>]
   \<and> get_file_hash_index ''/t/nodigits'' = Inr None
   \<and> \<lparr>file_path = ''/t/nodigits'', file_partition = None\<rparr>
       \<in> set [\<lparr>file_path = ''/t/a_1'', file_partition = None\<rparr>,
               \<lparr>file_path = ''/t/nodigits'', file_partition = None\<rparr>]"
  using prune_files_known_mismatch [of 1
     "[\<lparr>file_path = ''/t/a_1'', file_partition = None\<rparr>,
      \<lparr>file_path = ''/t/b_2'', file_partition = None\<rparr>,
      \<lparr>file_path = ''/t/nodigits'', file_partition = None\<rparr>]"
     "[\<lparr>file_path = ''/t/a_1'', file_partition = None\<rparr>,
          \<lparr>file_path = ''/t/nodigits'', file_partition = None\<rparr>]"
     "Some 1" "\<lparr>file_path = ''/t/nodigits'', file_partition = None\<rparr>"]
    prune_example hash_index_nodigits
  by simp

section \<open>Properties of the listing step\<close>

lemma lists_all_Cons:
  "lists_all lister (p # ps) \<longleftrightarrow> (\<exists>fs. lister p = Inr fs) \<and> lists_all lister ps"
  by (cases "lister p") (simp_all add: lists_all_def)

lemma lists_all_Nil: "lists_all lister []"
  by (simp add: lists_all_def)

lemma list_partition_Inr:
  "list_partition lister p files st = (Inr out, st') \<longleftrightarrow>
     (\<exists>fs. lister p = Inr fs \<and> out = files @ fs)
     \<and> st' = st\<lparr>listing_calls := listing_calls st @ [p]\<rparr>"
  by (cases "lister p") (auto simp: list_partition_def)

lemma list_partition_Inl:
  "list_partition lister p files st = (Inl e, st') \<longleftrightarrow>
     (\<exists>x. lister p = Inl x \<and> e = COLLABORATOR x)
     \<and> st' = st\<lparr>listing_calls := listing_calls st @ [p]\<rparr>"
  by (cases "lister p") (auto simp: list_partition_def)

lemma list_sequentially_Inr:
  "list_sequentially lister ps files st = (Inr out, st') \<longleftrightarrow>
     lists_all lister ps \<and> out = files @ concat (map (files_of lister) ps)
     \<and> st' = st\<lparr>listing_calls := listing_calls st @ ps\<rparr>"
proof (induction ps arbitrary: files st)
  case Nil
  show ?case by (auto simp: lists_all_Nil)
next
  case (Cons p ps)
  show ?case
  proof (cases "lister p")
    case (Inl x)
    then have "list_partition lister p files st
        = (Inl (COLLABORATOR x), st\<lparr>listing_calls := listing_calls st @ [p]\<rparr>)"
      by (simp add: list_partition_def)
    with Inl show ?thesis by (simp add: lists_all_Cons)
  next
    case (Inr fs)
    then have "list_partition lister p files st
        = (Inr (files @ fs), st\<lparr>listing_calls := listing_calls st @ [p]\<rparr>)"
      by (simp add: list_partition_def)
    with Inr show ?thesis
      by (simp add: Cons.IH lists_all_Cons files_of_def)
  qed
qed

lemma list_sequentially_Inl:
  "list_sequentially lister ps files st = (Inl e, st') \<Longrightarrow> \<exists>x. e = COLLABORATOR x"
proof (induction ps arbitrary: files st)
  case Nil
  then show ?case by simp
next
  case (Cons p ps)
  show ?case
  proof (cases "lister p")
    case (Inl x)
    with Cons.prems show ?thesis by (auto simp: list_partition_def)
  next
    case (Inr fs)
    with Cons.prems Cons.IH show ?thesis by (auto simp: list_partition_def)
  qed
qed


lemma next_job_less: "pending \<noteq> [] \<Longrightarrow> next_job schedule pending < length pending"
  by (cases schedule) (simp_all add: next_job_def)

lemma pool_jobs_Nil:
  "pool_jobs lister schedule [] first_exception files st =
     (case first_exception of Some e \<Rightarrow> (Inl e, st) | None \<Rightarrow> (Inr files, st))"
  by (subst pool_jobs.simps) simp

lemma pool_jobs_step:
  assumes "pending \<noteq> []"
  shows "pool_jobs lister schedule pending first_exception files st =
     (case lister (pending ! next_job schedule pending) of
        Inl x \<Rightarrow>
          pool_jobs lister (tl schedule)
            (take (next_job schedule pending) pending @ drop (Suc (next_job schedule pending)) pending)
            (case first_exception of None \<Rightarrow> Some (COLLABORATOR x) | Some e0 \<Rightarrow> Some e0)
            files
            (st\<lparr>listing_calls := listing_calls st @ [pending ! next_job schedule pending]\<rparr>)
      | Inr fs \<Rightarrow>
          pool_jobs lister (tl schedule)
            (take (next_job schedule pending) pending @ drop (Suc (next_job schedule pending)) pending)
            first_exception
            (files @ fs)
            (st\<lparr>listing_calls := listing_calls st @ [pending ! next_job schedule pending]\<rparr>))"
  using assms
  by (subst pool_jobs.simps)
     (simp add: next_job_def [symmetric] list_partition_def Let_def split: sum.splits)

lemma mset_without_nth:
  "i < length xs \<Longrightarrow> mset (take i xs @ drop (Suc i) xs) + {#xs ! i#} = mset xs"
proof -
  assume "i < length xs"
  then have "xs = take i xs @ xs ! i # drop (Suc i) xs" by (rule id_take_nth_drop)
  then have "mset xs = mset (take i xs @ xs ! i # drop (Suc i) xs)" by simp
  then show ?thesis by simp
qed

lemma mset_concat_without_nth:
  "i < length xs \<Longrightarrow>
   mset (concat (map f (take i xs @ drop (Suc i) xs))) + mset (f (xs ! i)) = mset (concat (map f xs))"
proof -
  assume "i < length xs"
  then have "xs = take i xs @ xs ! i # drop (Suc i) xs" by (rule id_take_nth_drop)
  then have "mset (concat (map f xs)) = mset (concat (map f (take i xs @ xs ! i # drop (Suc i) xs)))"
    by simp
  then show ?thesis by simp
qed

lemma lists_all_without_nth:
  "i < length xs \<Longrightarrow>
   lists_all lister xs \<longleftrightarrow>
     (\<exists>fs. lister (xs ! i) = Inr fs) \<and> lists_all lister (take i xs @ drop (Suc i) xs)"
proof -
  assume "i < length xs"
  then have "xs = take i xs @ xs ! i # drop (Suc i) xs" by (rule id_take_nth_drop)
  then have "lists_all lister xs = lists_all lister (take i xs @ xs ! i # drop (Suc i) xs)"
    by simp
  also have "\<dots> = ((\<exists>fs. lister (xs ! i) = Inr fs) \<and> lists_all lister (take i xs @ drop (Suc i) xs))"
    by (cases "lister (xs ! i)") (auto simp: lists_all_def)
  finally show ?thesis .
qed

lemma pool_jobs_Inr:
  "pool_jobs lister schedule pending first_exception files st = (Inr out, st') \<Longrightarrow>
     first_exception = None
     \<and> lists_all lister pending
     \<and> mset out = mset files + mset (concat (map (files_of lister) pending))
     \<and> mset (listing_calls st') = mset (listing_calls st) + mset pending
     \<and> st' = st\<lparr>listing_calls := listing_calls st'\<rparr>"
proof (induction "length pending" arbitrary: pending schedule first_exception files st)
  case 0
  then show ?case
    by (cases first_exception) (simp_all add: pool_jobs_Nil lists_all_Nil)
next
  case (Suc n)
  then have ne: "pending \<noteq> []" by auto
  define i where "i = next_job schedule pending"
  have i: "i < length pending" unfolding i_def using ne by (rule next_job_less)
  define rest where "rest = take i pending @ drop (Suc i) pending"
  have len: "n = length rest" using Suc.hyps(2) i by (simp add: rest_def)
  define st1 where "st1 = st\<lparr>listing_calls := listing_calls st @ [pending ! i]\<rparr>"
  show ?case
  proof (cases "lister (pending ! i)")
    case (Inl x)
    with Suc.prems ne have "pool_jobs lister (tl schedule) rest
        (case first_exception of None \<Rightarrow> Some (COLLABORATOR x) | Some e0 \<Rightarrow> Some e0)
        files st1 = (Inr out, st')"
      by (simp add: pool_jobs_step i_def [symmetric] rest_def st1_def)
    from Suc.hyps(1) [OF len this]
    have "(case first_exception of None \<Rightarrow> Some (COLLABORATOR x) | Some e0 \<Rightarrow> Some e0) = None"
      by simp
    then show ?thesis by (cases first_exception) simp_all
  next
    case (Inr fs)
    with Suc.prems ne
    have r: "pool_jobs lister (tl schedule) rest first_exception (files @ fs) st1 = (Inr out, st')"
      by (simp add: pool_jobs_step i_def [symmetric] rest_def st1_def)
    from Suc.hyps(1) [OF len r]
    have ih: "first_exception = None" "lists_all lister rest"
      "mset out = mset (files @ fs) + mset (concat (map (files_of lister) rest))"
      "mset (listing_calls st') = mset (listing_calls st1) + mset rest"
      "st' = st1\<lparr>listing_calls := listing_calls st'\<rparr>"
      by auto
    have f: "files_of lister (pending ! i) = fs" using Inr by (simp add: files_of_def)
    have 1: "lists_all lister pending"
      using lists_all_without_nth [OF i, of lister] Inr ih(2) by (simp add: rest_def)
    have 2: "mset out = mset files + mset (concat (map (files_of lister) pending))"
      using ih(3) mset_concat_without_nth [OF i, of "files_of lister"] f
      by (simp add: rest_def ac_simps)
    have 3: "mset (listing_calls st') = mset (listing_calls st) + mset pending"
      using ih(4) mset_without_nth [OF i] by (simp add: rest_def st1_def ac_simps)
    have 4: "st' = st\<lparr>listing_calls := listing_calls st'\<rparr>"
      using ih(5) by (simp add: st1_def)
    from ih(1) 1 2 3 4 show ?thesis by blast
  qed
qed

lemma pool_jobs_total:
  "lists_all lister pending \<Longrightarrow>
   \<exists>out st'. pool_jobs lister schedule pending None files st = (Inr out, st')"
proof (induction "length pending" arbitrary: pending schedule files st)
  case 0
  then show ?case by (simp add: pool_jobs_Nil)
next
  case (Suc n)
  then have ne: "pending \<noteq> []" by auto
  define i where "i = next_job schedule pending"
  have i: "i < length pending" unfolding i_def using ne by (rule next_job_less)
  define rest where "rest = take i pending @ drop (Suc i) pending"
  have len: "n = length rest" using Suc.hyps(2) i by (simp add: rest_def)
  from Suc.prems lists_all_without_nth [OF i, of lister]
  obtain fs where fs: "lister (pending ! i) = Inr fs" and r: "lists_all lister rest"
    by (auto simp: rest_def)
  from Suc.hyps(1) [OF len r] fs ne show ?case
    by (simp add: pool_jobs_step i_def [symmetric] rest_def)
qed

lemma pool_jobs_Inl:
  "pool_jobs lister schedule pending first_exception files st = (Inl e, st') \<Longrightarrow>
   (\<And>e0. first_exception = Some e0 \<Longrightarrow> \<exists>x. e0 = COLLABORATOR x) \<Longrightarrow>
   \<exists>x. e = COLLABORATOR x"
proof (induction "length pending" arbitrary: pending schedule first_exception files st)
  case 0
  then show ?case by (cases first_exception) (simp_all add: pool_jobs_Nil)
next
  case (Suc n)
  then have ne: "pending \<noteq> []" by auto
  define i where "i = next_job schedule pending"
  have i: "i < length pending" unfolding i_def using ne by (rule next_job_less)
  define rest where "rest = take i pending @ drop (Suc i) pending"
  have len: "n = length rest" using Suc.hyps(2) i by (simp add: rest_def)
  show ?case
  proof (cases "lister (pending ! i)")
    case (Inl x)
    define fe where
      "fe = (case first_exception of None \<Rightarrow> Some (COLLABORATOR x) | Some e0 \<Rightarrow> Some e0)"
    from Inl Suc.prems(1) ne have r: "pool_jobs lister (tl schedule) rest fe files
        (st\<lparr>listing_calls := listing_calls st @ [pending ! i]\<rparr>) = (Inl e, st')"
      by (simp add: pool_jobs_step i_def [symmetric] rest_def fe_def)
    have "\<And>e0. fe = Some e0 \<Longrightarrow> \<exists>x. e0 = COLLABORATOR x"
      using Suc.prems(2) by (cases first_exception) (auto simp: fe_def)
    from Suc.hyps(1) [OF len r this] show ?thesis .
  next
    case (Inr fs)
    with Suc.prems(1) ne have r: "pool_jobs lister (tl schedule) rest first_exception (files @ fs)
        (st\<lparr>listing_calls := listing_calls st @ [pending ! i]\<rparr>) = (Inl e, st')"
      by (simp add: pool_jobs_step i_def [symmetric] rest_def)
    from Suc.hyps(1) [OF len r Suc.prems(2)] show ?thesis .
  qed
qed

text \<open>Every job of the pool runs, whether or not another one failed.\<close>

lemma pool_jobs_lists_every_partition:
  "mset (listing_calls (snd (pool_jobs lister schedule pending first_exception files st)))
     = mset (listing_calls st) + mset pending
   \<and> (\<exists>calls. snd (pool_jobs lister schedule pending first_exception files st)
         = st\<lparr>listing_calls := calls\<rparr>)"
proof (induction "length pending" arbitrary: pending schedule first_exception files st)
  case 0
  then show ?case
    by (cases first_exception) (auto simp: pool_jobs_Nil intro: exI [of _ "listing_calls st"])
next
  case (Suc n)
  then have ne: "pending \<noteq> []" by auto
  define i where "i = next_job schedule pending"
  have i: "i < length pending" unfolding i_def using ne by (rule next_job_less)
  define rest where "rest = take i pending @ drop (Suc i) pending"
  have len: "n = length rest" using Suc.hyps(2) i by (simp add: rest_def)
  define st1 where "st1 = st\<lparr>listing_calls := listing_calls st @ [pending ! i]\<rparr>"
  have m: "mset (listing_calls st1) + mset rest = mset (listing_calls st) + mset pending"
    using mset_without_nth [OF i] by (simp add: rest_def st1_def ac_simps)
  obtain fe' files' where
    step: "pool_jobs lister schedule pending first_exception files st
      = pool_jobs lister (tl schedule) rest fe' files' st1"
  proof (cases "lister (pending ! i)")
    case (Inl x)
    with ne that show ?thesis
      by (simp add: pool_jobs_step i_def [symmetric] rest_def st1_def)
  next
    case (Inr fs)
    with ne that show ?thesis
      by (simp add: pool_jobs_step i_def [symmetric] rest_def st1_def)
  qed
  from Suc.hyps(1) [OF len, of schedule' fe' files' st1 for schedule']
  have ih: "mset (listing_calls (snd (pool_jobs lister (tl schedule) rest fe' files' st1)))
      = mset (listing_calls st1) + mset rest"
    "\<exists>calls. snd (pool_jobs lister (tl schedule) rest fe' files' st1)
      = st1\<lparr>listing_calls := calls\<rparr>"
    by blast+
  from ih(2) obtain calls where
    "snd (pool_jobs lister (tl schedule) rest fe' files' st1) = st1\<lparr>listing_calls := calls\<rparr>" ..
  then have "snd (pool_jobs lister schedule pending first_exception files st)
      = st\<lparr>listing_calls := calls\<rparr>"
    by (simp add: step st1_def)
  then have "\<exists>calls. snd (pool_jobs lister schedule pending first_exception files st)
      = st\<lparr>listing_calls := calls\<rparr>" ..
  with ih(1) m show ?case by (simp add: step)
qed

lemma list_in_pool_Inr:
  "list_in_pool lister schedule pending files st = (Inr out, st') \<Longrightarrow>
     lists_all lister pending
     \<and> mset out = mset files + mset (concat (map (files_of lister) pending))
     \<and> mset (listing_calls st') = mset (listing_calls st) + mset pending
     \<and> st' = st\<lparr>listing_calls := listing_calls st'\<rparr>"
  unfolding list_in_pool_def by (drule pool_jobs_Inr) blast

lemma list_in_pool_total:
  "lists_all lister pending \<Longrightarrow> \<exists>out st'. list_in_pool lister schedule pending files st = (Inr out, st')"
  unfolding list_in_pool_def by (rule pool_jobs_total)

lemma list_in_pool_Inl:
  "list_in_pool lister schedule pending files st = (Inl e, st') \<Longrightarrow> \<exists>x. e = COLLABORATOR x"
  unfolding list_in_pool_def by (erule pool_jobs_Inl) simp

lemma list_sequentially_frame:
  "\<exists>calls. snd (list_sequentially lister ps files st) = st\<lparr>listing_calls := calls\<rparr>"
proof (induction ps arbitrary: files st)
  case Nil
  show ?case by (auto intro: exI [of _ "listing_calls st"])
next
  case (Cons p ps)
  show ?case
  proof (cases "lister p")
    case (Inl x)
    then show ?thesis by (simp add: list_partition_def) blast
  next
    case (Inr fs)
    from Cons.IH [of "files @ fs" "st\<lparr>listing_calls := listing_calls st @ [p]\<rparr>"] Inr
    show ?thesis by (auto simp: list_partition_def)
  qed
qed

lemma list_in_pool_frame:
  "\<exists>calls. snd (list_in_pool lister schedule pending files st) = st\<lparr>listing_calls := calls\<rparr>"
  unfolding list_in_pool_def using pool_jobs_lists_every_partition by blast

text \<open>
  In the concurrent branch every partition is asked for, also when the listing of one of
  them fails.
\<close>

lemma list_in_pool_lists_every_partition:
  "mset (listing_calls (snd (list_in_pool lister schedule pending files st)))
     = mset (listing_calls st) + mset pending"
  unfolding list_in_pool_def using pool_jobs_lists_every_partition by blast

lemma list_partitions_sequential:
  "num_streams \<le> 1 \<or> length partitions = 1 \<Longrightarrow>
   list_partitions lister schedule num_streams partitions st = list_sequentially lister partitions [] st"
  by (simp add: list_partitions_def)

lemma list_partitions_Inr:
  "list_partitions lister schedule num_streams partitions st = (Inr out, st') \<Longrightarrow>
     lists_all lister partitions
     \<and> mset out = mset (concat (map (files_of lister) partitions))
     \<and> mset (listing_calls st') = mset (listing_calls st) + mset partitions"
proof (cases "num_streams \<le> 1 \<or> length partitions = 1")
  case True
  assume "list_partitions lister schedule num_streams partitions st = (Inr out, st')"
  with True have "list_sequentially lister partitions [] st = (Inr out, st')"
    by (simp add: list_partitions_def)
  then show ?thesis by (simp add: list_sequentially_Inr)
next
  case False
  assume "list_partitions lister schedule num_streams partitions st = (Inr out, st')"
  with False have "list_in_pool lister schedule partitions []
      (st\<lparr>thread_pools := thread_pools st @ [num_threads num_streams partitions]\<rparr>) = (Inr out, st')"
    by (simp add: list_partitions_def)
  from list_in_pool_Inr [OF this] show ?thesis by simp
qed

lemma list_partitions_total:
  "lists_all lister partitions \<Longrightarrow>
   \<exists>out st'. list_partitions lister schedule num_streams partitions st = (Inr out, st')"
proof (cases "num_streams \<le> 1 \<or> length partitions = 1")
  case True
  assume "lists_all lister partitions"
  with True show ?thesis by (simp add: list_partitions_def list_sequentially_Inr)
next
  case False
  assume "lists_all lister partitions"
  from list_in_pool_total [OF this] False show ?thesis by (simp add: list_partitions_def)
qed

lemma list_partitions_Inl:
  "list_partitions lister schedule num_streams partitions st = (Inl e, st') \<Longrightarrow> \<exists>x. e = COLLABORATOR x"
  by (cases "num_streams \<le> 1 \<or> length partitions = 1")
     (auto simp: list_partitions_def dest: list_sequentially_Inl list_in_pool_Inl)

lemma list_partitions_thread_pools:
  "thread_pools (snd (list_partitions lister schedule num_streams partitions st)) =
     (if num_streams \<le> 1 \<or> length partitions = 1 then thread_pools st
      else thread_pools st @ [min num_streams (length partitions)])"
proof (cases "num_streams \<le> 1 \<or> length partitions = 1")
  case True
  from list_sequentially_frame [of lister partitions "[]" st] True
  show ?thesis by (auto simp: list_partitions_def)
next
  case False
  from list_in_pool_frame [of lister schedule partitions "[]"
      "st\<lparr>thread_pools := thread_pools st @ [num_threads num_streams partitions]\<rparr>"] False
  show ?thesis by (auto simp: list_partitions_def num_threads_def)
qed


text \<open>
  Claim C7. A stream budget of 1 takes the sequential branch. For the same lister, the same
  partitions and the same state, the sequential listing returns a file list exactly when
  the listing with any other budget and any schedule of the pool returns one (which is when
  the lister returns on every partition), and the two file lists are then equal as
  multisets, as are the partitions listed. The sequential branch is taken, and no thread
  pool constructed, exactly when the budget is at most 1 or there is one partition;
  otherwise one pool is constructed, of \<open>min num_streams (length partitions)\<close> threads.
\<close>

theorem listing_sequential_concurrent:
  "list_partitions lister schedule 1 partitions st = list_sequentially lister partitions [] st
   \<and> ((\<exists>files1 st1. list_partitions lister schedule 1 partitions st = (Inr files1, st1))
        \<longleftrightarrow> (\<exists>files2 st2. list_partitions lister schedule' num_streams partitions st = (Inr files2, st2)))
   \<and> (list_partitions lister schedule 1 partitions st = (Inr files1, st1)
        \<and> list_partitions lister schedule' num_streams partitions st = (Inr files2, st2)
       \<longrightarrow> mset files1 = mset files2 \<and> mset (listing_calls st1) = mset (listing_calls st2))
   \<and> (num_streams \<le> 1 \<or> length partitions = 1 \<longrightarrow>
        list_partitions lister schedule' num_streams partitions st
          = list_sequentially lister partitions [] st
        \<and> thread_pools (snd (list_partitions lister schedule' num_streams partitions st))
          = thread_pools st)
   \<and> (\<not> (num_streams \<le> 1 \<or> length partitions = 1) \<longrightarrow>
        list_partitions lister schedule' num_streams partitions st
          = list_in_pool lister schedule' partitions []
              (st\<lparr>thread_pools := thread_pools st @ [min num_streams (length partitions)]\<rparr>)
        \<and> thread_pools (snd (list_partitions lister schedule' num_streams partitions st))
          = thread_pools st @ [min num_streams (length partitions)])"
proof -
  have a: "list_partitions lister schedule 1 partitions st = list_sequentially lister partitions [] st"
    by (simp add: list_partitions_def)
  have ret: "\<And>sch n. (\<exists>files st'. list_partitions lister sch n partitions st = (Inr files, st'))
      \<longleftrightarrow> lists_all lister partitions"
    using list_partitions_Inr list_partitions_total by blast
  have b: "(\<exists>files1 st1. list_partitions lister schedule 1 partitions st = (Inr files1, st1))
        \<longleftrightarrow> (\<exists>files2 st2. list_partitions lister schedule' num_streams partitions st = (Inr files2, st2))"
    unfolding ret ..
  have c: "mset files1 = mset files2 \<and> mset (listing_calls st1) = mset (listing_calls st2)"
    if "list_partitions lister schedule 1 partitions st = (Inr files1, st1)
        \<and> list_partitions lister schedule' num_streams partitions st = (Inr files2, st2)"
    using that list_partitions_Inr [of lister schedule 1 partitions st files1 st1]
      list_partitions_Inr [of lister schedule' num_streams partitions st files2 st2]
    by simp
  have d: "list_partitions lister schedule' num_streams partitions st
          = list_sequentially lister partitions [] st
        \<and> thread_pools (snd (list_partitions lister schedule' num_streams partitions st))
          = thread_pools st"
    if "num_streams \<le> 1 \<or> length partitions = 1"
    using that list_partitions_thread_pools [of lister schedule' num_streams partitions st]
      list_partitions_sequential [of num_streams partitions lister schedule' st]
    by (simp only: if_True simp_thms)
  have e: "list_partitions lister schedule' num_streams partitions st
          = list_in_pool lister schedule' partitions []
              (st\<lparr>thread_pools := thread_pools st @ [min num_streams (length partitions)]\<rparr>)
        \<and> thread_pools (snd (list_partitions lister schedule' num_streams partitions st))
          = thread_pools st @ [min num_streams (length partitions)]"
    if "\<not> (num_streams \<le> 1 \<or> length partitions = 1)"
    using that list_partitions_thread_pools [of lister schedule' num_streams partitions st]
    by (simp add: list_partitions_def num_threads_def)
  from a b c d e show ?thesis by blast
qed

lemma example_sequential:
  "list_partitions example_lister [] 1 [example_partition ''2024'', example_partition ''2025'']
     initial_state
   = (Inr [example_file (example_partition ''2024'') ''000000_0_a'',
           example_file (example_partition ''2024'') ''000001_0_b'',
           example_file (example_partition ''2025'') ''000000_0_a'',
           example_file (example_partition ''2025'') ''000001_0_b''],
      initial_state\<lparr>listing_calls := [example_partition ''2024'', example_partition ''2025'']\<rparr>)"
  by code_simp

lemma example_concurrent:
  "list_partitions example_lister [1] 8 [example_partition ''2024'', example_partition ''2025'']
     initial_state
   = (Inr [example_file (example_partition ''2025'') ''000000_0_a'',
           example_file (example_partition ''2025'') ''000001_0_b'',
           example_file (example_partition ''2024'') ''000000_0_a'',
           example_file (example_partition ''2024'') ''000001_0_b''],
      initial_state\<lparr>thread_pools := [2],
        listing_calls := [example_partition ''2025'', example_partition ''2024'']\<rparr>)"
  by code_simp

theorem listing_sequential_concurrent_witness:
  "list_partitions example_lister [] 1 [example_partition ''2024'', example_partition ''2025'']
     initial_state
   = (Inr [example_file (example_partition ''2024'') ''000000_0_a'',
           example_file (example_partition ''2024'') ''000001_0_b'',
           example_file (example_partition ''2025'') ''000000_0_a'',
           example_file (example_partition ''2025'') ''000001_0_b''],
      initial_state\<lparr>listing_calls := [example_partition ''2024'', example_partition ''2025'']\<rparr>)
   \<and> list_partitions example_lister [1] 8 [example_partition ''2024'', example_partition ''2025'']
     initial_state
   = (Inr [example_file (example_partition ''2025'') ''000000_0_a'',
           example_file (example_partition ''2025'') ''000001_0_b'',
           example_file (example_partition ''2024'') ''000000_0_a'',
           example_file (example_partition ''2024'') ''000001_0_b''],
      initial_state\<lparr>thread_pools := [2],
        listing_calls := [example_partition ''2025'', example_partition ''2024'']\<rparr>)
   \<and> mset [example_file (example_partition ''2024'') ''000000_0_a'',
           example_file (example_partition ''2024'') ''000001_0_b'',
           example_file (example_partition ''2025'') ''000000_0_a'',
           example_file (example_partition ''2025'') ''000001_0_b'']
     = mset [example_file (example_partition ''2025'') ''000000_0_a'',
           example_file (example_partition ''2025'') ''000001_0_b'',
           example_file (example_partition ''2024'') ''000000_0_a'',
           example_file (example_partition ''2024'') ''000001_0_b'']
   \<and> \<not> ((8 :: nat) \<le> 1 \<or> length [example_partition ''2024'', example_partition ''2025''] = 1)
   \<and> thread_pools (snd (list_partitions example_lister [1] 8
         [example_partition ''2024'', example_partition ''2025''] initial_state))
     = thread_pools initial_state @ [2]
   \<and> thread_pools (snd (list_partitions example_lister [1] 8
         [example_partition ''2024''] initial_state))
     = thread_pools initial_state"
proof -
  note t = listing_sequential_concurrent [where lister = example_lister and schedule = "[]" and schedule' = "[1]"
      and partitions = "[example_partition ''2024'', example_partition ''2025'']"
      and st = initial_state and num_streams = 8]
  have m: "mset [example_file (example_partition ''2024'') ''000000_0_a'',
           example_file (example_partition ''2024'') ''000001_0_b'',
           example_file (example_partition ''2025'') ''000000_0_a'',
           example_file (example_partition ''2025'') ''000001_0_b'']
     = mset [example_file (example_partition ''2025'') ''000000_0_a'',
           example_file (example_partition ''2025'') ''000001_0_b'',
           example_file (example_partition ''2024'') ''000000_0_a'',
           example_file (example_partition ''2024'') ''000001_0_b'']"
    using t [where ?files1.0 = "[example_file (example_partition ''2024'') ''000000_0_a'',
           example_file (example_partition ''2024'') ''000001_0_b'',
           example_file (example_partition ''2025'') ''000000_0_a'',
           example_file (example_partition ''2025'') ''000001_0_b'']"
        and ?files2.0 = "[example_file (example_partition ''2025'') ''000000_0_a'',
           example_file (example_partition ''2025'') ''000001_0_b'',
           example_file (example_partition ''2024'') ''000000_0_a'',
           example_file (example_partition ''2024'') ''000001_0_b'']"
        and ?st1.0 = "initial_state\<lparr>listing_calls := [example_partition ''2024'', example_partition ''2025'']\<rparr>"
        and ?st2.0 = "initial_state\<lparr>thread_pools := [2],
        listing_calls := [example_partition ''2025'', example_partition ''2024'']\<rparr>"]
      example_sequential example_concurrent
    by (simp only: simp_thms)
  have ne: "\<not> ((8 :: nat) \<le> 1
      \<or> length [example_partition ''2024'', example_partition ''2025''] = 1)"
    by simp
  have "thread_pools (snd (list_partitions example_lister [1] 8
         [example_partition ''2024'', example_partition ''2025''] initial_state))
     = thread_pools initial_state
        @ [min 8 (length [example_partition ''2024'', example_partition ''2025''])]"
    using t ne by blast
  then have p: "thread_pools (snd (list_partitions example_lister [1] 8
         [example_partition ''2024'', example_partition ''2025''] initial_state))
     = thread_pools initial_state @ [2]"
    by simp
  have one: "(8 :: nat) \<le> 1 \<or> length [example_partition ''2024''] = 1"
    by simp
  have q: "thread_pools (snd (list_partitions example_lister [1] 8
         [example_partition ''2024''] initial_state))
     = thread_pools initial_state"
    using listing_sequential_concurrent [where lister = example_lister and schedule' = "[1]"
      and partitions = "[example_partition ''2024'']"
      and st = initial_state and num_streams = 8] one
    by blast
  from example_sequential example_concurrent m ne p q show ?thesis by (intro conjI)
qed


section \<open>Properties of read planning\<close>

lemma selectPartitions_Inl:
  "selectPartitions storage collab settings optimizer = Inl e \<Longrightarrow> \<exists>x. e = COLLABORATOR x"
  by (auto simp: selectPartitions_def split: if_splits sum.splits)

lemma getDirectoryLister_Inl:
  "getDirectoryLister storage collab = Inl e \<Longrightarrow>
     (\<exists>x. e = COLLABORATOR x) \<or> e = UNKNOWN_FORMAT (inputFormat (hive_table_sd storage))"
  by (auto simp: getDirectoryLister_def Let_def split: if_splits sum.splits)

lemma get_file_hash_index_Inl:
  "get_file_hash_index s = Inl e \<Longrightarrow> e = STD_OUT_OF_RANGE"
  unfolding get_file_hash_index_runs Let_def by (simp split: if_splits)

lemma remove_if_Inl:
  "remove_if pred xs = Inl e \<Longrightarrow> \<exists>x \<in> set xs. pred x = Inl e"
proof (induction xs)
  case Nil
  then show ?case by simp
next
  case (Cons x xs)
  show ?case
  proof (cases "pred x")
    case (Inl e')
    with Cons.prems show ?thesis by simp
  next
    case (Inr b)
    with Cons.prems have "remove_if pred xs = Inl e" by (simp split: sum.splits)
    with Cons.IH show ?thesis by simp
  qed
qed

lemma prune_files_Inl:
  "prune_files required_bucket files = Inl e \<Longrightarrow> e = STD_OUT_OF_RANGE"
proof -
  assume "prune_files required_bucket files = Inl e"
  then obtain f where "bucket_mismatch required_bucket f = Inl e"
    unfolding prune_files_def by (blast dest: remove_if_Inl)
  then show ?thesis
    by (auto simp: bucket_mismatch_def split: option.splits sum.splits dest: get_file_hash_index_Inl)
qed

lemma parse_cluster_by_cond_Inl:
  "parse_cluster_by_cond ev names ast columns = Inl e \<Longrightarrow> e = BAD_GET \<or> (\<exists>x. e = COLLABORATOR x)"
  "parse_cluster_by_conds ev names asts columns = Inl e \<Longrightarrow> e = BAD_GET \<or> (\<exists>x. e = COLLABORATOR x)"
proof (induction ev names ast columns and ev names asts columns
    rule: parse_cluster_by_cond_parse_cluster_by_conds.induct)
  case (2 ev names name children columns)
  then show ?case
    by (auto simp: safeGet_String_def split: if_splits sum.splits Field.splits)
next
  case (7 ev names child children columns)
  then show ?case by (auto split: sum.splits)
qed simp_all

lemma getSelectedBucketNumber_Inl:
  "getSelectedBucketNumber storage collab optimizer = Inl e \<Longrightarrow>
     e = BAD_GET \<or> (\<exists>x. e = COLLABORATOR x)"
  by (auto simp: getSelectedBucketNumber_def Let_def
      split: option.splits if_splits sum.splits dest: parse_cluster_by_cond_Inl(1))

lemma prune_by_bucket_Inl:
  "prune_by_bucket storage collab settings optimizer files = Inl e \<Longrightarrow>
     e = STD_OUT_OF_RANGE \<or> e = BAD_GET \<or> (\<exists>x. e = COLLABORATOR x)"
  by (auto simp: prune_by_bucket_def split: if_splits sum.splits
      dest: getSelectedBucketNumber_Inl prune_files_Inl)

lemma collectResource_Inl:
  "collectResource storage collab result st = (Inl e, st') \<Longrightarrow> \<exists>x. e = COLLABORATOR x"
  by (auto simp: collectResource_def Let_def split: option.splits)

lemma collectResource_Inr:
  "collectResource storage collab result st = (Inr result', st') \<Longrightarrow>
     listing_calls st' = listing_calls st \<and> directory_listers st' = directory_listers st
     \<and> thread_pools st' = thread_pools st"
  by (auto simp: collectResource_def Let_def split: option.splits)

lemma check_max_partitions_Some:
  "check_max_partitions settings partitions = Some e \<longleftrightarrow>
     0 < max_partitions_to_read settings
     \<and> nat (max_partitions_to_read settings) < length partitions
     \<and> e = TOO_MANY_PARTITIONS (length partitions) (max_partitions_to_read settings)"
  by (auto simp: check_max_partitions_def)

lemma check_max_partitions_None:
  "check_max_partitions settings partitions = None \<longleftrightarrow>
     \<not> (0 < max_partitions_to_read settings
        \<and> nat (max_partitions_to_read settings) < length partitions)"
  by (auto simp: check_max_partitions_def)

lemma prepareReadContext_limit_origin:
  assumes "prepareReadContext storage collab settings optimizer column_names num_streams st
             = (Inl (TOO_MANY_PARTITIONS c n), st')"
  shows "st' = st \<and> check_columns collab column_names = None
     \<and> (\<exists>partitions. selectPartitions storage collab settings optimizer = Inr partitions
          \<and> check_max_partitions settings partitions = Some (TOO_MANY_PARTITIONS c n))"
proof (cases "check_columns collab column_names")
  case (Some x)
  with assms show ?thesis by (simp add: prepareReadContext_def)
next
  case None
  show ?thesis
  proof (cases "selectPartitions storage collab settings optimizer")
    case (Inl e)
    with None assms selectPartitions_Inl [OF Inl] show ?thesis
      by (auto simp: prepareReadContext_def)
  next
    case (Inr partitions)
    show ?thesis
    proof (cases "check_max_partitions settings partitions")
      case (Some e)
      with None Inr assms show ?thesis by (simp add: prepareReadContext_def)
    next
      case no_limit: None
      show ?thesis
      proof (cases "getDirectoryLister storage collab")
        case (Inl e)
        with None Inr no_limit assms getDirectoryLister_Inl [OF Inl] show ?thesis
          by (auto simp: prepareReadContext_def)
      next
        case lister: (Inr lister)
        obtain r st1 where l: "list_partitions (list_files collab lister) (pool_schedule collab)
            num_streams partitions (st\<lparr>directory_listers := directory_listers st @ [lister]\<rparr>)
            = (r, st1)" by (cases "list_partitions (list_files collab lister) (pool_schedule collab)
            num_streams partitions (st\<lparr>directory_listers := directory_listers st @ [lister]\<rparr>)")
        show ?thesis
        proof (cases r)
          case (Inl e)
          with None Inr no_limit lister l assms list_partitions_Inl [OF l [unfolded Inl]]
          show ?thesis by (auto simp: prepareReadContext_def)
        next
          case files: (Inr files)
          show ?thesis
          proof (cases "prune_by_bucket storage collab settings optimizer files")
            case (Inl e)
            with None Inr no_limit lister l files assms prune_by_bucket_Inl [OF Inl]
            show ?thesis by (auto simp: prepareReadContext_def)
          next
            case pruned: (Inr pruned)
            with None Inr no_limit lister l files assms
            have "collectResource storage collab \<lparr>hive_files = pruned, local_table_name = []\<rparr> st1
                = (Inl (TOO_MANY_PARTITIONS c n), st')"
              by (simp add: prepareReadContext_def)
            from collectResource_Inl [OF this] show ?thesis by simp
          qed
        qed
      qed
    qed
  qed
qed

lemma prepareReadContext_Inr:
  assumes "prepareReadContext storage collab settings optimizer column_names num_streams st
             = (Inr result, st')"
  shows "\<exists>partitions lister files st1 pruned.
     check_columns collab column_names = None
     \<and> selectPartitions storage collab settings optimizer = Inr partitions
     \<and> check_max_partitions settings partitions = None
     \<and> getDirectoryLister storage collab = Inr lister
     \<and> list_partitions (list_files collab lister) (pool_schedule collab) num_streams partitions
          (st\<lparr>directory_listers := directory_listers st @ [lister]\<rparr>) = (Inr files, st1)
     \<and> prune_by_bucket storage collab settings optimizer files = Inr pruned
     \<and> collectResource storage collab \<lparr>hive_files = pruned, local_table_name = []\<rparr> st1
          = (Inr result, st')"
  using assms
  by (auto simp: prepareReadContext_def split: option.splits sum.splits prod.splits)

lemma prepareReadContext_before_listing:
  assumes "getDirectoryLister storage collab = Inl e"
  shows "\<exists>e'. prepareReadContext storage collab settings optimizer column_names num_streams st
             = (Inl e', st)"
  using assms
  by (auto simp: prepareReadContext_def split: option.splits sum.splits prod.splits)

text \<open>
  Claim C5. When the columns check passes, the selection returns its partitions and their
  number exceeds a positive \<^verbatim>\<open>max_partitions_to_read\<close>, read planning fails with
  \<^verbatim>\<open>TOO_MANY_PARTITIONS\<close> carrying that number and the limit. The set is never cut short:
  when read planning returns, every selected partition has been listed, and their number
  is within a positive limit. With the limit 0 the check passes for every number of
  partitions and read planning never fails with \<^verbatim>\<open>TOO_MANY_PARTITIONS\<close>.
\<close>

theorem max_partitions_to_read_ceiling:
  "(check_columns collab column_names = None
      \<and> selectPartitions storage collab settings optimizer = Inr partitions
      \<and> 0 < max_partitions_to_read settings
      \<and> max_partitions_to_read settings < int (length partitions)
     \<longrightarrow> prepareReadContext storage collab settings optimizer column_names num_streams st
          = (Inl (TOO_MANY_PARTITIONS (length partitions) (max_partitions_to_read settings)), st))
   \<and> (prepareReadContext storage collab settings optimizer column_names num_streams st
          = (Inr result, st')
      \<and> selectPartitions storage collab settings optimizer = Inr partitions
     \<longrightarrow> mset (listing_calls st') = mset (listing_calls st) + mset partitions
        \<and> (0 < max_partitions_to_read settings
             \<longrightarrow> int (length partitions) \<le> max_partitions_to_read settings))
   \<and> (max_partitions_to_read settings = 0
     \<longrightarrow> check_max_partitions settings partitions = None
        \<and> fst (prepareReadContext storage collab settings optimizer column_names num_streams st)
             \<noteq> Inl (TOO_MANY_PARTITIONS c n))"
proof (intro conjI impI)
  assume a: "check_columns collab column_names = None
      \<and> selectPartitions storage collab settings optimizer = Inr partitions
      \<and> 0 < max_partitions_to_read settings
      \<and> max_partitions_to_read settings < int (length partitions)"
  then have "check_max_partitions settings partitions
      = Some (TOO_MANY_PARTITIONS (length partitions) (max_partitions_to_read settings))"
    by (simp add: check_max_partitions_Some) linarith
  with a show "prepareReadContext storage collab settings optimizer column_names num_streams st
          = (Inl (TOO_MANY_PARTITIONS (length partitions) (max_partitions_to_read settings)), st)"
    by (simp add: prepareReadContext_def)
next
  assume a: "prepareReadContext storage collab settings optimizer column_names num_streams st
          = (Inr result, st')
      \<and> selectPartitions storage collab settings optimizer = Inr partitions"
  from prepareReadContext_Inr [of storage collab settings optimizer column_names num_streams st result st'] a
  obtain lister files st1 pruned where
    m: "check_max_partitions settings partitions = None"
    and l: "list_partitions (list_files collab lister) (pool_schedule collab) num_streams partitions
          (st\<lparr>directory_listers := directory_listers st @ [lister]\<rparr>) = (Inr files, st1)"
    and c: "collectResource storage collab \<lparr>hive_files = pruned, local_table_name = []\<rparr> st1
          = (Inr result, st')"
    by auto
  from list_partitions_Inr [OF l] collectResource_Inr [OF c]
  show "mset (listing_calls st') = mset (listing_calls st) + mset partitions" by simp
  { assume "0 < max_partitions_to_read settings"
    with m show "int (length partitions) \<le> max_partitions_to_read settings"
      by (simp add: check_max_partitions_None) }
next
  assume z: "max_partitions_to_read settings = 0"
  then show "check_max_partitions settings partitions = None"
    by (simp add: check_max_partitions_def)
  show "fst (prepareReadContext storage collab settings optimizer column_names num_streams st)
             \<noteq> Inl (TOO_MANY_PARTITIONS c n)"
  proof
    assume "fst (prepareReadContext storage collab settings optimizer column_names num_streams st)
             = Inl (TOO_MANY_PARTITIONS c n)"
    then have "prepareReadContext storage collab settings optimizer column_names num_streams st
        = (Inl (TOO_MANY_PARTITIONS c n),
           snd (prepareReadContext storage collab settings optimizer column_names num_streams st))"
      by (metis prod.collapse)
    from prepareReadContext_limit_origin [OF this] z show False
      by (auto simp: check_max_partitions_Some)
  qed
qed

lemma example_selected:
  "selectPartitions example_storage example_collab example_settings example_optimizer
     = Inr [example_partition ''2024'', example_partition ''2025'']"
  by code_simp

lemma example_run_limit_2:
  "prepareReadContext example_storage example_collab
     (example_settings\<lparr>max_partitions_to_read := 2\<rparr>) example_optimizer [''id''] 8 initial_state
   = (Inr \<lparr>hive_files = [example_file (example_partition ''2025'') ''000001_0_b'',
                         example_file (example_partition ''2024'') ''000001_0_b''],
           local_table_name = ''t_42''\<rparr>,
      \<lparr>directory_listers = [DiskDirectoryLister (Disk ''/warehouse/t'') ORC],
       thread_pools = [2],
       listing_calls = [example_partition ''2025'', example_partition ''2024''],
       create_queries = [(''CREATE TABLE t_42'', ''t_42'')],
       data_parts = [(''uuid-t'', [example_file (example_partition ''2025'') ''000001_0_b'',
                                  example_file (example_partition ''2024'') ''000001_0_b''])]\<rparr>)"
  by code_simp

lemma example_selected_limit_2:
  "selectPartitions example_storage example_collab
     (example_settings\<lparr>max_partitions_to_read := 2\<rparr>) example_optimizer
     = Inr [example_partition ''2024'', example_partition ''2025'']"
  by code_simp

theorem max_partitions_to_read_ceiling_witness:
  "check_columns example_collab [''id''] = None
   \<and> selectPartitions example_storage example_collab example_settings example_optimizer
       = Inr [example_partition ''2024'', example_partition ''2025'']
   \<and> 0 < max_partitions_to_read example_settings
   \<and> max_partitions_to_read example_settings
       < int (length [example_partition ''2024'', example_partition ''2025''])
   \<and> prepareReadContext example_storage example_collab example_settings example_optimizer
        [''id''] 8 initial_state
       = (Inl (TOO_MANY_PARTITIONS 2 1), initial_state)
   \<and> mset (listing_calls (snd (prepareReadContext example_storage example_collab
        (example_settings\<lparr>max_partitions_to_read := 2\<rparr>) example_optimizer [''id''] 8
        initial_state)))
       = mset [example_partition ''2024'', example_partition ''2025'']
   \<and> max_partitions_to_read (example_settings\<lparr>max_partitions_to_read := 0\<rparr>) = 0
   \<and> fst (prepareReadContext example_storage example_collab
        (example_settings\<lparr>max_partitions_to_read := 0\<rparr>) example_optimizer [''id''] 8
        initial_state) \<noteq> Inl (TOO_MANY_PARTITIONS 2 0)"
proof -
  have c: "check_columns example_collab [''id''] = None" by (simp add: example_collab_def)
  have m: "max_partitions_to_read example_settings = 1" by (simp add: example_settings_def)
  have i: "listing_calls initial_state = []" by (simp add: initial_state_def)
  have 1: "prepareReadContext example_storage example_collab example_settings example_optimizer
        [''id''] 8 initial_state = (Inl (TOO_MANY_PARTITIONS 2 1), initial_state)"
    using max_partitions_to_read_ceiling [where collab = example_collab and column_names = "[''id'']"
        and storage = example_storage and settings = example_settings
        and optimizer = example_optimizer
        and partitions = "[example_partition ''2024'', example_partition ''2025'']"
        and num_streams = 8 and st = initial_state]
      c m example_selected by simp
  have 2: "mset (listing_calls (snd (prepareReadContext example_storage example_collab
        (example_settings\<lparr>max_partitions_to_read := 2\<rparr>) example_optimizer [''id''] 8
        initial_state)))
       = mset [example_partition ''2024'', example_partition ''2025'']"
    using max_partitions_to_read_ceiling [where collab = example_collab and column_names = "[''id'']"
        and storage = example_storage
        and settings = "example_settings\<lparr>max_partitions_to_read := 2\<rparr>"
        and optimizer = example_optimizer
        and partitions = "[example_partition ''2024'', example_partition ''2025'']"
        and num_streams = 8 and st = initial_state]
      example_run_limit_2 example_selected_limit_2 i by simp
  have 3: "fst (prepareReadContext example_storage example_collab
        (example_settings\<lparr>max_partitions_to_read := 0\<rparr>) example_optimizer [''id''] 8
        initial_state) \<noteq> Inl (TOO_MANY_PARTITIONS 2 0)"
    using max_partitions_to_read_ceiling [where collab = example_collab and column_names = "[''id'']"
        and storage = example_storage
        and settings = "example_settings\<lparr>max_partitions_to_read := 0\<rparr>"
        and optimizer = example_optimizer
        and num_streams = 8 and st = initial_state and c = 2 and n = 0]
    by simp
  from c m example_selected 1 2 3 show ?thesis by simp
qed


text \<open>
  Claim C10. When read planning fails with \<^verbatim>\<open>TOO_MANY_PARTITIONS\<close>, the state is the one it
  started from: no directory lister and no thread pool was constructed, no partition was
  listed, no create query and no data part was added. The error carries the number of the
  selected partitions and the positive limit that number exceeds.
\<close>

theorem too_many_partitions_state_unchanged:
  "prepareReadContext storage collab settings optimizer column_names num_streams st
      = (Inl (TOO_MANY_PARTITIONS c n), st')
   \<longrightarrow> st' = st
     \<and> directory_listers st' = directory_listers st
     \<and> thread_pools st' = thread_pools st
     \<and> listing_calls st' = listing_calls st
     \<and> create_queries st' = create_queries st
     \<and> data_parts st' = data_parts st
     \<and> (\<exists>partitions. selectPartitions storage collab settings optimizer = Inr partitions
          \<and> c = length partitions \<and> n = max_partitions_to_read settings
          \<and> 0 < n \<and> n < int c)"
proof
  assume "prepareReadContext storage collab settings optimizer column_names num_streams st
      = (Inl (TOO_MANY_PARTITIONS c n), st')"
  from prepareReadContext_limit_origin [OF this]
  obtain partitions where "st' = st"
    "selectPartitions storage collab settings optimizer = Inr partitions"
    "check_max_partitions settings partitions = Some (TOO_MANY_PARTITIONS c n)"
    by blast
  then show "st' = st
     \<and> directory_listers st' = directory_listers st
     \<and> thread_pools st' = thread_pools st
     \<and> listing_calls st' = listing_calls st
     \<and> create_queries st' = create_queries st
     \<and> data_parts st' = data_parts st
     \<and> (\<exists>partitions. selectPartitions storage collab settings optimizer = Inr partitions
          \<and> c = length partitions \<and> n = max_partitions_to_read settings
          \<and> 0 < n \<and> n < int c)"
    by (auto simp: check_max_partitions_Some)
qed

theorem too_many_partitions_state_unchanged_witness:
  "prepareReadContext example_storage example_collab example_settings example_optimizer
        [''id''] 8 initial_state
       = (Inl (TOO_MANY_PARTITIONS 2 1), initial_state)
   \<and> (\<exists>partitions.
         selectPartitions example_storage example_collab example_settings example_optimizer
           = Inr partitions
         \<and> length partitions = 2 \<and> max_partitions_to_read example_settings = 1)"
proof -
  have r: "prepareReadContext example_storage example_collab example_settings example_optimizer
        [''id''] 8 initial_state
       = (Inl (TOO_MANY_PARTITIONS 2 1), initial_state)"
    by code_simp
  from too_many_partitions_state_unchanged [where storage = example_storage and collab = example_collab
      and settings = example_settings and optimizer = example_optimizer
      and column_names = "[''id'']" and num_streams = 8 and st = initial_state
      and c = 2 and n = 1 and st' = initial_state] r
  show ?thesis by auto
qed



text \<open>
  Claim C8. Once the disk of the table location is resolved, the input format of Hudi
  copy-on-write gives the Hudi lister, the parquet input format the disk lister for
  \<^verbatim>\<open>PARQUET\<close>, the ORC input format the disk lister for \<^verbatim>\<open>ORC\<close>, and any other string the
  error \<^verbatim>\<open>UNKNOWN_FORMAT\<close>; only those three strings give a lister. With any other string
  read planning fails and leaves the state as it was, so no partition was listed; the
  failure is \<^verbatim>\<open>UNKNOWN_FORMAT\<close> when the steps before the lister went through.
\<close>

theorem getDirectoryLister_formats:
  "(getDiskFromURI collab (sd_location (hive_table_sd storage)) = Inr disk \<longrightarrow>
      (inputFormat (hive_table_sd storage) = ''org.apache.hudi.hadoop.HoodieParquetInputFormat''
         \<longrightarrow> getDirectoryLister storage collab = Inr (HudiCowDirectoryLister disk))
      \<and> (inputFormat (hive_table_sd storage)
            = ''org.apache.hadoop.hive.ql.io.parquet.MapredParquetInputFormat''
         \<longrightarrow> getDirectoryLister storage collab = Inr (DiskDirectoryLister disk PARQUET))
      \<and> (inputFormat (hive_table_sd storage) = ''org.apache.hadoop.hive.ql.io.orc.OrcInputFormat''
         \<longrightarrow> getDirectoryLister storage collab = Inr (DiskDirectoryLister disk ORC))
      \<and> (inputFormat (hive_table_sd storage)
            \<notin> {''org.apache.hudi.hadoop.HoodieParquetInputFormat'',
                ''org.apache.hadoop.hive.ql.io.parquet.MapredParquetInputFormat'',
                ''org.apache.hadoop.hive.ql.io.orc.OrcInputFormat''}
         \<longrightarrow> getDirectoryLister storage collab
               = Inl (UNKNOWN_FORMAT (inputFormat (hive_table_sd storage)))))
   \<and> (getDirectoryLister storage collab = Inr lister \<longrightarrow>
        inputFormat (hive_table_sd storage)
          \<in> {''org.apache.hudi.hadoop.HoodieParquetInputFormat'',
              ''org.apache.hadoop.hive.ql.io.parquet.MapredParquetInputFormat'',
              ''org.apache.hadoop.hive.ql.io.orc.OrcInputFormat''})
   \<and> (inputFormat (hive_table_sd storage)
          \<notin> {''org.apache.hudi.hadoop.HoodieParquetInputFormat'',
              ''org.apache.hadoop.hive.ql.io.parquet.MapredParquetInputFormat'',
              ''org.apache.hadoop.hive.ql.io.orc.OrcInputFormat''}
       \<longrightarrow> (\<exists>e. prepareReadContext storage collab settings optimizer column_names num_streams st
                  = (Inl e, st))
         \<and> (check_columns collab column_names = None
              \<and> selectPartitions storage collab settings optimizer = Inr partitions
              \<and> check_max_partitions settings partitions = None
              \<and> getDiskFromURI collab (sd_location (hive_table_sd storage)) = Inr disk
            \<longrightarrow> prepareReadContext storage collab settings optimizer column_names num_streams st
                  = (Inl (UNKNOWN_FORMAT (inputFormat (hive_table_sd storage))), st)))"
proof -
  let ?fmt = "inputFormat (hive_table_sd storage)"
  let ?known = "{''org.apache.hudi.hadoop.HoodieParquetInputFormat'',
              ''org.apache.hadoop.hive.ql.io.parquet.MapredParquetInputFormat'',
              ''org.apache.hadoop.hive.ql.io.orc.OrcInputFormat''}"
  have unknown: "\<exists>e. getDirectoryLister storage collab = Inl e" if "?fmt \<notin> ?known"
    using that by (cases "getDiskFromURI collab (sd_location (hive_table_sd storage))")
      (simp_all add: getDirectoryLister_def Let_def)
  have a: "getDiskFromURI collab (sd_location (hive_table_sd storage)) = Inr disk \<longrightarrow>
      (?fmt = ''org.apache.hudi.hadoop.HoodieParquetInputFormat''
         \<longrightarrow> getDirectoryLister storage collab = Inr (HudiCowDirectoryLister disk))
      \<and> (?fmt = ''org.apache.hadoop.hive.ql.io.parquet.MapredParquetInputFormat''
         \<longrightarrow> getDirectoryLister storage collab = Inr (DiskDirectoryLister disk PARQUET))
      \<and> (?fmt = ''org.apache.hadoop.hive.ql.io.orc.OrcInputFormat''
         \<longrightarrow> getDirectoryLister storage collab = Inr (DiskDirectoryLister disk ORC))
      \<and> (?fmt \<notin> ?known
         \<longrightarrow> getDirectoryLister storage collab = Inl (UNKNOWN_FORMAT ?fmt))"
    by (simp add: getDirectoryLister_def Let_def)
  have b: "getDirectoryLister storage collab = Inr lister \<longrightarrow> ?fmt \<in> ?known"
  proof
    assume r: "getDirectoryLister storage collab = Inr lister"
    show "?fmt \<in> ?known"
    proof (rule ccontr)
      assume "?fmt \<notin> ?known"
      from unknown [OF this] r show False by simp
    qed
  qed
  have c: "\<exists>e. prepareReadContext storage collab settings optimizer column_names num_streams st
                  = (Inl e, st)" if "?fmt \<notin> ?known"
    using unknown [OF that] prepareReadContext_before_listing by blast
  have d: "prepareReadContext storage collab settings optimizer column_names num_streams st
                  = (Inl (UNKNOWN_FORMAT ?fmt), st)"
    if "?fmt \<notin> ?known" "check_columns collab column_names = None
              \<and> selectPartitions storage collab settings optimizer = Inr partitions
              \<and> check_max_partitions settings partitions = None
              \<and> getDiskFromURI collab (sd_location (hive_table_sd storage)) = Inr disk"
    using that a by (simp add: prepareReadContext_def)
  from a b c d show ?thesis by blast
qed

theorem getDirectoryLister_formats_witness:
  "getDiskFromURI example_collab (sd_location (hive_table_sd example_storage))
     = Inr (Disk ''/warehouse/t'')
   \<and> getDirectoryLister example_storage example_collab
     = Inr (DiskDirectoryLister (Disk ''/warehouse/t'') ORC)
   \<and> getDirectoryLister
       (example_storage\<lparr>hive_table_sd := \<lparr>sd_location = ''/warehouse/t'',
          inputFormat = ''org.apache.hadoop.hive.ql.io.parquet.MapredParquetInputFormat''\<rparr>\<rparr>)
       example_collab
     = Inr (DiskDirectoryLister (Disk ''/warehouse/t'') PARQUET)
   \<and> getDirectoryLister
       (example_storage\<lparr>hive_table_sd := \<lparr>sd_location = ''/warehouse/t'',
          inputFormat = ''org.apache.hudi.hadoop.HoodieParquetInputFormat''\<rparr>\<rparr>)
       example_collab
     = Inr (HudiCowDirectoryLister (Disk ''/warehouse/t''))
   \<and> getDirectoryLister
       (example_storage\<lparr>hive_table_sd := \<lparr>sd_location = ''/warehouse/t'',
          inputFormat = ''org.apache.hadoop.mapred.TextInputFormat''\<rparr>\<rparr>)
       example_collab
     = Inl (UNKNOWN_FORMAT ''org.apache.hadoop.mapred.TextInputFormat'')
   \<and> prepareReadContext
       (example_storage\<lparr>hive_table_sd := \<lparr>sd_location = ''/warehouse/t'',
          inputFormat = ''org.apache.hadoop.mapred.TextInputFormat''\<rparr>\<rparr>)
       example_collab (example_settings\<lparr>max_partitions_to_read := 0\<rparr>) example_optimizer
       [''id''] 8 initial_state
     = (Inl (UNKNOWN_FORMAT ''org.apache.hadoop.mapred.TextInputFormat''), initial_state)"
proof -
  have d: "\<And>fmt. getDiskFromURI example_collab (sd_location (hive_table_sd
      (example_storage\<lparr>hive_table_sd := \<lparr>sd_location = ''/warehouse/t'', inputFormat = fmt\<rparr>\<rparr>)))
      = Inr (Disk ''/warehouse/t'')"
    by (simp add: example_collab_def)
  have d0: "getDiskFromURI example_collab (sd_location (hive_table_sd example_storage))
     = Inr (Disk ''/warehouse/t'')"
    by (simp add: example_collab_def example_storage_def)
  have f0: "inputFormat (hive_table_sd example_storage)
      = ''org.apache.hadoop.hive.ql.io.orc.OrcInputFormat''"
    by (simp add: example_storage_def)
  have c: "check_columns example_collab [''id''] = None" by (simp add: example_collab_def)
  have s: "selectPartitions
       (example_storage\<lparr>hive_table_sd := \<lparr>sd_location = ''/warehouse/t'',
          inputFormat = ''org.apache.hadoop.mapred.TextInputFormat''\<rparr>\<rparr>)
       example_collab (example_settings\<lparr>max_partitions_to_read := 0\<rparr>) example_optimizer
      = Inr [example_partition ''2024'', example_partition ''2025'']"
    by code_simp
  have m: "check_max_partitions (example_settings\<lparr>max_partitions_to_read := 0\<rparr>)
      [example_partition ''2024'', example_partition ''2025''] = None"
    by (simp add: check_max_partitions_def)
  have 1: "getDirectoryLister example_storage example_collab
     = Inr (DiskDirectoryLister (Disk ''/warehouse/t'') ORC)"
    using getDirectoryLister_formats [where collab = example_collab and storage = example_storage
        and disk = "Disk ''/warehouse/t''"] d0 f0
    by simp
  have 2: "getDirectoryLister
       (example_storage\<lparr>hive_table_sd := \<lparr>sd_location = ''/warehouse/t'',
          inputFormat = ''org.apache.hadoop.hive.ql.io.parquet.MapredParquetInputFormat''\<rparr>\<rparr>)
       example_collab
     = Inr (DiskDirectoryLister (Disk ''/warehouse/t'') PARQUET)"
    using getDirectoryLister_formats [where collab = example_collab
        and storage = "example_storage\<lparr>hive_table_sd := \<lparr>sd_location = ''/warehouse/t'',
          inputFormat = ''org.apache.hadoop.hive.ql.io.parquet.MapredParquetInputFormat''\<rparr>\<rparr>"
        and disk = "Disk ''/warehouse/t''"] d
    by simp
  have 3: "getDirectoryLister
       (example_storage\<lparr>hive_table_sd := \<lparr>sd_location = ''/warehouse/t'',
          inputFormat = ''org.apache.hudi.hadoop.HoodieParquetInputFormat''\<rparr>\<rparr>)
       example_collab
     = Inr (HudiCowDirectoryLister (Disk ''/warehouse/t''))"
    using getDirectoryLister_formats [where collab = example_collab
        and storage = "example_storage\<lparr>hive_table_sd := \<lparr>sd_location = ''/warehouse/t'',
          inputFormat = ''org.apache.hudi.hadoop.HoodieParquetInputFormat''\<rparr>\<rparr>"
        and disk = "Disk ''/warehouse/t''"] d
    by simp
  have 4: "getDirectoryLister
       (example_storage\<lparr>hive_table_sd := \<lparr>sd_location = ''/warehouse/t'',
          inputFormat = ''org.apache.hadoop.mapred.TextInputFormat''\<rparr>\<rparr>)
       example_collab
     = Inl (UNKNOWN_FORMAT ''org.apache.hadoop.mapred.TextInputFormat'')
   \<and> prepareReadContext
       (example_storage\<lparr>hive_table_sd := \<lparr>sd_location = ''/warehouse/t'',
          inputFormat = ''org.apache.hadoop.mapred.TextInputFormat''\<rparr>\<rparr>)
       example_collab (example_settings\<lparr>max_partitions_to_read := 0\<rparr>) example_optimizer
       [''id''] 8 initial_state
     = (Inl (UNKNOWN_FORMAT ''org.apache.hadoop.mapred.TextInputFormat''), initial_state)"
    using getDirectoryLister_formats [where collab = example_collab
        and storage = "example_storage\<lparr>hive_table_sd := \<lparr>sd_location = ''/warehouse/t'',
          inputFormat = ''org.apache.hadoop.mapred.TextInputFormat''\<rparr>\<rparr>"
        and disk = "Disk ''/warehouse/t''"
        and settings = "example_settings\<lparr>max_partitions_to_read := 0\<rparr>"
        and optimizer = example_optimizer and column_names = "[''id'']"
        and partitions = "[example_partition ''2024'', example_partition ''2025'']"
        and num_streams = 8 and st = initial_state] d c s m
    by simp
  from d0 1 2 3 4 show ?thesis by simp
qed

section \<open>Properties of partition selection\<close>

lemma select_loop_filter:
  "select_loop collab pruner aps acc =
     acc @ filter (\<lambda>p. \<not> (pruner \<and> canBePruned collab (partition_id p) (partition_value p)))
             (map (load_partition collab) aps)"
  by (induction aps arbitrary: acc) (simp_all add: Let_def)

text \<open>
  Claim C6, amended. For a table with a partition key, whatever the settings for the
  metastore filter and the local pruner, the selection returns when the metastore does,
  and the partitions it returns are loaded from partitions the metastore reported for the
  filter: they are the loaded partitions the pruner does not reject, in the order of the
  metastore. For a table without a partition key the selection is the single partition
  loaded from the storage descriptor of the table.
\<close>

theorem selectPartitions_within_metastore:
  "(hasPartitionKey storage
      \<and> getPartitionsByFilter collab (metastore_filter collab settings optimizer) = Inr reported
     \<longrightarrow> selectPartitions storage collab settings optimizer
          = Inr (filter (\<lambda>p. \<not> (use_hive_partition_filter settings
                                  \<and> canBePruned collab (partition_id p) (partition_value p)))
                   (map (load_partition collab) reported))
        \<and> (\<exists>selected. selectPartitions storage collab settings optimizer = Inr selected
              \<and> set selected \<subseteq> load_partition collab ` set reported))
   \<and> (hasPartitionKey storage
      \<and> selectPartitions storage collab settings optimizer = Inr selected
     \<longrightarrow> (\<exists>reported.
           getPartitionsByFilter collab (metastore_filter collab settings optimizer) = Inr reported
           \<and> set selected \<subseteq> load_partition collab ` set reported))
   \<and> (\<not> hasPartitionKey storage
     \<longrightarrow> selectPartitions storage collab settings optimizer
          = Inr [load_table collab (hive_table_sd storage)])"
proof (intro conjI impI)
  assume a: "hasPartitionKey storage
      \<and> getPartitionsByFilter collab (metastore_filter collab settings optimizer) = Inr reported"
  then show s: "selectPartitions storage collab settings optimizer
          = Inr (filter (\<lambda>p. \<not> (use_hive_partition_filter settings
                                  \<and> canBePruned collab (partition_id p) (partition_value p)))
                   (map (load_partition collab) reported))"
    by (simp add: selectPartitions_def select_loop_filter)
  show "\<exists>selected. selectPartitions storage collab settings optimizer = Inr selected
              \<and> set selected \<subseteq> load_partition collab ` set reported"
    unfolding s by auto
next
  assume a: "hasPartitionKey storage
      \<and> selectPartitions storage collab settings optimizer = Inr selected"
  then have h: "hasPartitionKey storage"
    and sel: "selectPartitions storage collab settings optimizer = Inr selected"
    by simp_all
  from h sel obtain reported where
    r: "getPartitionsByFilter collab (metastore_filter collab settings optimizer) = Inr reported"
    by (cases "getPartitionsByFilter collab (metastore_filter collab settings optimizer)")
       (auto simp: selectPartitions_def)
  with h sel have "selected = filter (\<lambda>p. \<not> (use_hive_partition_filter settings
                                  \<and> canBePruned collab (partition_id p) (partition_value p)))
                   (map (load_partition collab) reported)"
    by (simp add: selectPartitions_def select_loop_filter)
  then have "set selected \<subseteq> load_partition collab ` set reported" by auto
  with r show "\<exists>reported.
           getPartitionsByFilter collab (metastore_filter collab settings optimizer) = Inr reported
           \<and> set selected \<subseteq> load_partition collab ` set reported" by blast
next
  assume "\<not> hasPartitionKey storage"
  then show "selectPartitions storage collab settings optimizer
          = Inr [load_table collab (hive_table_sd storage)]"
    by (simp add: selectPartitions_def)
qed

lemma example_reported:
  "getPartitionsByFilter example_collab
     (metastore_filter example_collab example_settings example_optimizer)
   = Inr [example_apache_partition ''2023'', example_apache_partition ''2024'',
          example_apache_partition ''2025'']"
  by (simp add: example_collab_def)

lemma example_loaded:
  "map (load_partition example_collab)
     [example_apache_partition ''2023'', example_apache_partition ''2024'',
      example_apache_partition ''2025'']
   = [example_partition ''2023'', example_partition ''2024'', example_partition ''2025'']"
  by code_simp

theorem selectPartitions_within_metastore_witness:
  "hasPartitionKey example_storage
   \<and> getPartitionsByFilter example_collab
       (metastore_filter example_collab example_settings example_optimizer)
     = Inr [example_apache_partition ''2023'', example_apache_partition ''2024'',
            example_apache_partition ''2025'']
   \<and> (\<exists>selected. selectPartitions example_storage example_collab example_settings
          example_optimizer = Inr selected
        \<and> set selected \<subseteq> set [example_partition ''2023'', example_partition ''2024'',
                               example_partition ''2025''])
   \<and> \<not> hasPartitionKey unpartitioned_storage
   \<and> selectPartitions unpartitioned_storage example_collab example_settings example_optimizer
     = Inr [load_table example_collab (hive_table_sd unpartitioned_storage)]"
proof -
  have h: "hasPartitionKey example_storage" by (simp add: example_storage_def)
  have u: "\<not> hasPartitionKey unpartitioned_storage" by (simp add: unpartitioned_storage_def)
  from selectPartitions_within_metastore [where storage = example_storage and collab = example_collab
      and settings = example_settings and optimizer = example_optimizer
      and reported = "[example_apache_partition ''2023'', example_apache_partition ''2024'',
          example_apache_partition ''2025'']"] h example_reported
  have "\<exists>selected. selectPartitions example_storage example_collab example_settings
          example_optimizer = Inr selected
        \<and> set selected \<subseteq> load_partition example_collab ` set [example_apache_partition ''2023'',
            example_apache_partition ''2024'', example_apache_partition ''2025'']"
    by blast
  then have 1: "\<exists>selected. selectPartitions example_storage example_collab example_settings
          example_optimizer = Inr selected
        \<and> set selected \<subseteq> set [example_partition ''2023'', example_partition ''2024'',
                               example_partition ''2025'']"
    using example_loaded by (simp only: set_map [symmetric])
  from selectPartitions_within_metastore [where storage = unpartitioned_storage and collab = example_collab
      and settings = example_settings and optimizer = example_optimizer] u
  have 2: "selectPartitions unpartitioned_storage example_collab example_settings example_optimizer
     = Inr [load_table example_collab (hive_table_sd unpartitioned_storage)]"
    by blast
  from h u example_reported 1 2 show ?thesis by (intro conjI)
qed

text \<open>
  Claim C6 as stated fails on a table without a partition key: the metastore reports no
  partition (it is not even asked), and the selection returns the one partition built
  from the storage descriptor of the table.
\<close>

lemma unpartitioned_selected:
  "selectPartitions unpartitioned_storage empty_metastore example_settings example_optimizer
     = Inr [\<lparr>partition_id = [], partition_value = [], location = ''/warehouse/t''\<rparr>]"
  by code_simp

lemma empty_metastore_reports:
  "getPartitionsByFilter empty_metastore
     (metastore_filter empty_metastore example_settings example_optimizer) = Inr []"
  by (simp add: empty_metastore_def)

theorem selectPartitions_unpartitioned_table:
  "getPartitionsByFilter empty_metastore
     (metastore_filter empty_metastore example_settings example_optimizer) = Inr []
   \<and> selectPartitions unpartitioned_storage empty_metastore example_settings example_optimizer
     = Inr [\<lparr>partition_id = [], partition_value = [], location = ''/warehouse/t''\<rparr>]
   \<and> \<not> set [\<lparr>partition_id = [], partition_value = [], location = ''/warehouse/t''\<rparr>]
         \<subseteq> load_partition empty_metastore ` set []"
  using unpartitioned_selected empty_metastore_reports by simp


section \<open>Properties of the bucket resolver\<close>


















end
